theory Spec2Isabelle
  imports Main "HOL-Library.Word"
begin

section \<open>Integer conventions\<close>

text \<open>
  The sources are \<^verbatim>\<open>WavLoader.h\<close>, \<^verbatim>\<open>AudioStream.h\<close> and the implementation of \<^verbatim>\<open>WavLoader\<close>
  (\<^verbatim>\<open>WavLoader.cpp\<close>, which stands in the second half of \<^verbatim>\<open>Timer.h\<close>).
  Unsigned fields (\<^verbatim>\<open>uint32_t\<close>, \<^verbatim>\<open>size_t\<close>, \<^verbatim>\<open>unsigned int\<close>) are naturals, and the
  places where the source's unsigned arithmetic can wrap are written out with
  \<open>uint32_t\<close> and \<open>size_t\<close> below. The locals of type \<^verbatim>\<open>int\<close> and \<^verbatim>\<open>long\<close> are integers;
  the widths are those of the \<^verbatim>\<open>USE_POSIX\<close> build (LP64: 32-bit \<^verbatim>\<open>int\<close>, 64-bit \<^verbatim>\<open>long\<close>
  and \<^verbatim>\<open>size_t\<close>), where every signed value computed below stays in range as long as the
  block map holds block numbers up to \<^verbatim>\<open>INT_MAX\<close> and the cursor is a \<^verbatim>\<open>uint32_t\<close>. With a
  32-bit \<^verbatim>\<open>long\<close> the one signed value that can leave its range is the product
  \<^verbatim>\<open>block * SamplesPerBlock\<close> of the range test in \<^verbatim>\<open>prime\<close>, for candidates more than
  \<open>2 ^ 20\<close> blocks away from the start. Sample payloads are not modelled: the buffers are
  tracked by their sizes, the cursor and the block map, which is what the properties
  below speak about.
\<close>

type_synonym byte = "8 word"

definition uint32_t :: "int \<Rightarrow> nat" where
  "uint32_t x = nat (x mod 2 ^ 32)"

definition size_t :: "int \<Rightarrow> nat" where
  "size_t x = nat (x mod 2 ^ 64)"

text \<open>A little-endian unsigned field of a packed struct.\<close>

fun le :: "byte list \<Rightarrow> nat" where
  "le [] = 0"
| "le (b # bs) = unat b + 256 * le bs"

datatype fault = DivisionByZero | NullPointer | MissingReturn

section \<open>The storage interface (class FileWrapper)\<close>

text \<open>
  The abstract class \<^verbatim>\<open>FileWrapper\<close>: the virtual functions the loader calls, over a
  storage object of state \<open>'f\<close>, each returning its result and the object's new state.
  \<open>fw_read n\<close> returns the bytes it transferred; their number is the \<^verbatim>\<open>size_t\<close> the
  C++ function returns.
\<close>

record 'f FileWrapper =
  fw_open :: "'f \<Rightarrow> bool \<times> 'f"
  fw_close :: "'f \<Rightarrow> 'f"
  fw_seek :: "nat \<Rightarrow> 'f \<Rightarrow> bool \<times> 'f"
  fw_read :: "nat \<Rightarrow> 'f \<Rightarrow> byte list \<times> 'f"
  fw_position :: "'f \<Rightarrow> int"

text \<open>
  \<^verbatim>\<open>PosixFileWrapper\<close> over an existing file: \<open>pf_bytes\<close> is the file's content and
  \<open>pf_stream\<close> the \<^verbatim>\<open>FILE*\<close> (\<open>None\<close> when it is \<^verbatim>\<open>NULL\<close>, else the stream's position).
  \<^verbatim>\<open>fseek\<close> takes a \<^verbatim>\<open>long\<close> offset and fails on a negative one.
\<close>

record PosixFile =
  pf_bytes :: "byte list"
  pf_stream :: "nat option"

definition PosixFileWrapper :: "PosixFile FileWrapper" where
  "PosixFileWrapper =
     \<lparr> fw_open = (\<lambda>f. (True, f\<lparr>pf_stream := Some 0\<rparr>)),
       fw_close = (\<lambda>f. f\<lparr>pf_stream := None\<rparr>),
       fw_seek = (\<lambda>p f. case pf_stream f of
                     None \<Rightarrow> (False, f)
                   | Some q \<Rightarrow> if p < 2 ^ 63 then (True, f\<lparr>pf_stream := Some p\<rparr>) else (False, f)),
       fw_read = (\<lambda>n f. case pf_stream f of
                     None \<Rightarrow> ([], f)
                   | Some q \<Rightarrow> (take n (drop q (pf_bytes f)),
                               f\<lparr>pf_stream := Some (q + length (take n (drop q (pf_bytes f))))\<rparr>)),
       fw_position = (\<lambda>f. case pf_stream f of None \<Rightarrow> - 1 | Some q \<Rightarrow> int q) \<rparr>"

text \<open>
  A recording wrapper around any storage object: it forwards every call and appends it
  to a log, so that the storage transactions of an operation can be counted.
\<close>

datatype io_call = IoOpen | IoClose | IoSeek nat | IoRead nat

definition Recording :: "'f FileWrapper \<Rightarrow> ('f \<times> io_call list) FileWrapper" where
  "Recording ops =
     \<lparr> fw_open = (\<lambda>(f, l). (fst (fw_open ops f), (snd (fw_open ops f), l @ [IoOpen]))),
       fw_close = (\<lambda>(f, l). (fw_close ops f, l @ [IoClose])),
       fw_seek = (\<lambda>p (f, l). (fst (fw_seek ops p f), (snd (fw_seek ops p f), l @ [IoSeek p]))),
       fw_read = (\<lambda>n (f, l). (fst (fw_read ops n f), (snd (fw_read ops n f), l @ [IoRead n]))),
       fw_position = (\<lambda>(f, l). fw_position ops f) \<rparr>"

definition reads :: "io_call list \<Rightarrow> nat" where
  "reads l = length (filter (\<lambda>c. case c of IoRead n \<Rightarrow> True | _ \<Rightarrow> False) l)"

section \<open>WavLoader\<close>

text \<open>
  \<^verbatim>\<open>struct WavFormat\<close> is packed and filled by a raw read of its 16 bytes, so it is kept
  as those bytes; the accessors read its little-endian fields.
\<close>

type_synonym WavFormat = "byte list"

definition audio_format :: "WavFormat \<Rightarrow> nat" where
  "audio_format fm = le (take 2 fm)"

definition num_channels :: "WavFormat \<Rightarrow> nat" where
  "num_channels fm = le (take 2 (drop 2 fm))"

definition sample_rate :: "WavFormat \<Rightarrow> nat" where
  "sample_rate fm = le (take 4 (drop 4 fm))"

definition data_rate :: "WavFormat \<Rightarrow> nat" where
  "data_rate fm = le (take 4 (drop 8 fm))"

definition block_align :: "WavFormat \<Rightarrow> nat" where
  "block_align fm = le (take 2 (drop 12 fm))"

definition bits_per_sample :: "WavFormat \<Rightarrow> nat" where
  "bits_per_sample fm = le (take 2 (drop 14 fm))"

text \<open>
  The members of \<^verbatim>\<open>class WavLoader\<close> (\<^verbatim>\<open>_format\<close>, \<^verbatim>\<open>_file\<close>, \<^verbatim>\<open>_position\<close>, \<^verbatim>\<open>_length\<close>,
  \<^verbatim>\<open>_data_offset\<close>, \<^verbatim>\<open>_file_size\<close>). \<open>wl_file\<close> is the pointer \<^verbatim>\<open>_file\<close>: \<open>None\<close> when it is
  \<^verbatim>\<open>NULL\<close>, else the state of the storage object it points to.
\<close>

record 'f WavLoader =
  wl_format :: WavFormat
  wl_file :: "'f option"
  wl_position :: nat
  wl_length :: nat
  wl_data_offset :: nat
  wl_file_size :: nat

text \<open>
  The constructor zero-initialises \<^verbatim>\<open>_format\<close>, \<^verbatim>\<open>_file\<close>, \<^verbatim>\<open>_length\<close>, \<^verbatim>\<open>_data_offset\<close> and
  \<^verbatim>\<open>_file_size\<close>; it leaves \<^verbatim>\<open>_position\<close> uninitialised, which is the parameter here.
\<close>

definition WavLoader_new :: "nat \<Rightarrow> 'f WavLoader" where
  "WavLoader_new p =
     \<lparr> wl_format = replicate 16 0, wl_file = None, wl_position = p,
       wl_length = 0, wl_data_offset = 0, wl_file_size = 0 \<rparr>"

definition sampleRate :: "'f WavLoader \<Rightarrow> nat" where
  "sampleRate w = sample_rate (wl_format w)"

definition bitsPerSample :: "'f WavLoader \<Rightarrow> nat" where
  "bitsPerSample w = bits_per_sample (wl_format w)"

definition numChannels :: "'f WavLoader \<Rightarrow> nat" where
  "numChannels w = num_channels (wl_format w)"

definition numSamples :: "'f WavLoader \<Rightarrow> nat" where
  "numSamples w = wl_length w"

definition frameAlignment :: "'f WavLoader \<Rightarrow> nat" where
  "frameAlignment w = block_align (wl_format w)"

definition RIFF_TAG :: "byte list" where
  "RIFF_TAG = [0x52, 0x49, 0x46, 0x46]"

definition WAVE_TAG :: "byte list" where
  "WAVE_TAG = [0x57, 0x41, 0x56, 0x45]"

definition FMT_TAG :: "byte list" where
  "FMT_TAG = [0x66, 0x6D, 0x74, 0x20]"

definition DATA_TAG :: "byte list" where
  "DATA_TAG = [0x64, 0x61, 0x74, 0x61]"

text \<open>\<^verbatim>\<open>struct RIFFChunkHeader\<close>: the tag and the declared size of a chunk.\<close>

type_synonym RIFFChunkHeader = "byte list \<times> nat"

definition chunk_tag :: "RIFFChunkHeader \<Rightarrow> byte list" where
  "chunk_tag h = fst h"

definition chunk_size :: "RIFFChunkHeader \<Rightarrow> nat" where
  "chunk_size h = snd h"

text \<open>
  One turn of the \<^verbatim>\<open>for (;;)\<close> loop of \<^verbatim>\<open>WavLoader::open\<close>: read a chunk header, handle a
  \<^verbatim>\<open>fmt\<close> or \<^verbatim>\<open>data\<close> chunk, then stop or seek to the next chunk. \<open>Return ok w\<close> leaves
  \<^verbatim>\<open>open\<close> with result \<open>ok\<close>; \<open>Next w h\<close> goes round again, \<open>h\<close> being the header consumed.
  The division by \<^verbatim>\<open>_format.block_align\<close> has no guard in the source; with a zero divisor
  it is the fault \<open>DivisionByZero\<close>.
\<close>

datatype 'f chunk_step =
  Return bool "'f WavLoader" "RIFFChunkHeader list"
  | Next "'f WavLoader" RIFFChunkHeader

definition after_chunk ::
  "'f FileWrapper \<Rightarrow> 'f WavLoader \<Rightarrow> 'f \<Rightarrow> int \<Rightarrow> RIFFChunkHeader \<Rightarrow> 'f chunk_step" where
  "after_chunk ops w f next_chunk_pos h =
     (if int (wl_file_size w) \<le> next_chunk_pos
      then Return True (w\<lparr>wl_file := Some f, wl_position := 0\<rparr>) [h]
      else (case fw_seek ops (size_t next_chunk_pos) f of
              (False, f') \<Rightarrow> Return False (w\<lparr>wl_file := Some (fw_close ops f')\<rparr>) [h]
            | (True, f') \<Rightarrow> Next (w\<lparr>wl_file := Some f'\<rparr>) h))"

definition read_chunk :: "'f FileWrapper \<Rightarrow> 'f WavLoader \<Rightarrow> fault + 'f chunk_step" where
  "read_chunk ops w =
     (case wl_file w of
        None \<Rightarrow> Inl NullPointer
      | Some f \<Rightarrow>
          (case fw_read ops 8 f of (d, f1) \<Rightarrow>
             if length d \<noteq> 8
             then Inr (Return False (w\<lparr>wl_file := Some (fw_close ops f1)\<rparr>) [])
             else
               let h = (take 4 d, le (drop 4 d));
                   pos = fw_position ops f1;
                   next_chunk_pos = pos + int (chunk_size h)
               in
                 if chunk_tag h = FMT_TAG then
                   (case fw_read ops 16 f1 of (p, f2) \<Rightarrow>
                      let w1 = w\<lparr>wl_format := take 16 (p @ drop (length p) (wl_format w))\<rparr> in
                        if length p \<noteq> 16
                        then Inr (Return False (w1\<lparr>wl_file := Some (fw_close ops f2)\<rparr>) [h])
                        else Inr (after_chunk ops w1 f2 next_chunk_pos h))
                 else if chunk_tag h = DATA_TAG then
                   (if block_align (wl_format w) = 0 then Inl DivisionByZero
                    else Inr (after_chunk ops
                           (w\<lparr>wl_length := chunk_size h div block_align (wl_format w),
                              wl_data_offset := uint32_t pos\<rparr>) f1 next_chunk_pos h))
                 else Inr (after_chunk ops w f1 next_chunk_pos h)))"

text \<open>
  The loop itself. It ends when the storage says so; a storage object that never does
  keeps it running, which is the value \<open>None\<close>. The result carries the chunk headers
  consumed, in order.
\<close>

partial_function (option) scan_chunks ::
  "'f FileWrapper \<Rightarrow> 'f WavLoader \<Rightarrow> RIFFChunkHeader list \<Rightarrow>
     (fault + bool \<times> 'f WavLoader \<times> RIFFChunkHeader list) option" where
  "scan_chunks ops w hs =
     (case read_chunk ops w of
        Inl e \<Rightarrow> Some (Inl e)
      | Inr (Return ok w' h) \<Rightarrow> Some (Inr (ok, w', hs @ h))
      | Inr (Next w' h) \<Rightarrow> scan_chunks ops w' (hs @ [h]))"

text \<open>\<^verbatim>\<open>WavLoader::open\<close>; the argument \<open>wrapper\<close> is the pointer passed in.\<close>

definition WavLoader_open ::
  "'f FileWrapper \<Rightarrow> 'f option \<Rightarrow> 'f WavLoader \<Rightarrow>
     (fault + bool \<times> 'f WavLoader \<times> RIFFChunkHeader list) option" where
  "WavLoader_open ops wrapper w =
     (case wrapper of
        None \<Rightarrow> Some (Inr (False, w, []))
      | Some f0 \<Rightarrow>
          (case fw_open ops f0 of
             (False, f1) \<Rightarrow> Some (Inr (False, w\<lparr>wl_file := None\<rparr>, []))
           | (True, f1) \<Rightarrow>
               (case fw_seek ops 0 f1 of
                  (False, f2) \<Rightarrow> Some (Inr (False, w\<lparr>wl_file := None\<rparr>, []))
                | (True, f2) \<Rightarrow>
                    (case fw_read ops 8 f2 of (d, f3) \<Rightarrow>
                       if length d \<noteq> 8
                       then Some (Inr (False, w\<lparr>wl_file := Some (fw_close ops f3)\<rparr>, []))
                       else if take 4 d \<noteq> RIFF_TAG
                       then Some (Inr (False, w\<lparr>wl_file := Some (fw_close ops f3)\<rparr>, []))
                       else
                         (case fw_read ops 4 f3 of (t, f4) \<Rightarrow>
                            if length t \<noteq> 4
                            then Some (Inr (False,
                                   w\<lparr>wl_file := Some (fw_close ops f4),
                                     wl_file_size := uint32_t (8 + int (le (drop 4 d)))\<rparr>, []))
                            else if t \<noteq> WAVE_TAG
                            then Some (Inr (False,
                                   w\<lparr>wl_file := Some (fw_close ops f4),
                                     wl_file_size := uint32_t (8 + int (le (drop 4 d)))\<rparr>, []))
                            else scan_chunks ops
                                   (w\<lparr>wl_file := Some f4,
                                      wl_file_size := uint32_t (8 + int (le (drop 4 d)))\<rparr>) [])))))"

text \<open>\<^verbatim>\<open>WavLoader::filePositionForSample\<close>, in \<^verbatim>\<open>uint32_t\<close> arithmetic.\<close>

definition filePositionForSample :: "'f WavLoader \<Rightarrow> nat \<Rightarrow> nat" where
  "filePositionForSample w sample_pos =
     (let clippedSamplePos = min sample_pos (numSamples w)
      in uint32_t (int (wl_data_offset w) + int clippedSamplePos * int (frameAlignment w)))"

definition WavLoader_position :: "'f WavLoader \<Rightarrow> nat" where
  "WavLoader_position w = wl_position w"

text \<open>\<^verbatim>\<open>WavLoader::seek\<close> and \<^verbatim>\<open>WavLoader::read\<close> dereference \<^verbatim>\<open>_file\<close>.\<close>

definition WavLoader_seek ::
  "'f FileWrapper \<Rightarrow> nat \<Rightarrow> 'f WavLoader \<Rightarrow> fault + bool \<times> 'f WavLoader" where
  "WavLoader_seek ops position w =
     (case wl_file w of
        None \<Rightarrow> Inl NullPointer
      | Some f \<Rightarrow>
          (case fw_seek ops (filePositionForSample w position) f of
             (ok, f') \<Rightarrow>
               Inr (ok, w\<lparr>wl_position := filePositionForSample w position, wl_file := Some f'\<rparr>)))"

definition WavLoader_read ::
  "'f FileWrapper \<Rightarrow> nat \<Rightarrow> 'f WavLoader \<Rightarrow> fault + nat \<times> 'f WavLoader" where
  "WavLoader_read ops bufSize w =
     (case wl_file w of
        None \<Rightarrow> Inl NullPointer
      | Some f \<Rightarrow>
          (case fw_read ops bufSize f of
             (d, f') \<Rightarrow> Inr (uint32_t (int (length d)), w\<lparr>wl_file := Some f'\<rparr>)))"

section \<open>AudioSamplerStream\<close>

text \<open>
  The template parameter \<^verbatim>\<open>SampleType\<close> ranges over the integer sample types of linear PCM;
  \<open>sizeof\<close> is its size in bytes.
\<close>

datatype SampleType = Int8 | Int16 | Int32

fun sizeof :: "SampleType \<Rightarrow> nat" where
  "sizeof Int8 = 1"
| "sizeof Int16 = 2"
| "sizeof Int32 = 4"

definition BlockSize :: nat where
  "BlockSize = 4096"

definition NumBlocks :: nat where
  "NumBlocks = 3"

definition SamplesPerBlock :: "SampleType \<Rightarrow> nat" where
  "SamplesPerBlock st = BlockSize div sizeof st"

definition IntroBufCapacity :: "SampleType \<Rightarrow> nat" where
  "IntroBufCapacity st = (BlockSize * 2) div sizeof st"

text \<open>\<^verbatim>\<open>UnmappedBlock\<close> is \<^verbatim>\<open>INT_MAX\<close>.\<close>

definition UnmappedBlock :: nat where
  "UnmappedBlock = 2147483647"

datatype AudioSamplerError = NoErr | BadFile | BadSampleSize

text \<open>
  A \<^verbatim>\<open>SampleType*\<close> into one of the two buffers, as the buffer and the offset in samples.
\<close>

datatype pointer = IntroBuf nat | RingBuf nat

text \<open>
  The members \<^verbatim>\<open>_readHead\<close>, \<^verbatim>\<open>_sampleIdx\<close>, \<^verbatim>\<open>_file\<close>, \<^verbatim>\<open>_introBufSize\<close> and \<^verbatim>\<open>_bufBlockMap\<close>
  (an array of \<open>NumBlocks\<close> entries).
\<close>

record 'f AudioSamplerStream =
  as_readHead :: pointer
  as_sampleIdx :: nat
  as_file :: "'f WavLoader"
  as_introBufSize :: nat
  as_bufBlockMap :: "nat list"

text \<open>
  The constructor initialises \<^verbatim>\<open>_file\<close> and \<^verbatim>\<open>_introBufSize\<close> only; what the other members
  hold before \<^verbatim>\<open>load\<close> is the parameters here.
\<close>

definition AudioSamplerStream_new ::
  "nat \<Rightarrow> pointer \<Rightarrow> nat \<Rightarrow> nat list \<Rightarrow> 'f AudioSamplerStream" where
  "AudioSamplerStream_new p rh i m =
     \<lparr> as_readHead = rh, as_sampleIdx = i, as_file = WavLoader_new p,
       as_introBufSize = 0, as_bufBlockMap = m \<rparr>"

definition sample_index :: "'f AudioSamplerStream \<Rightarrow> nat" where
  "sample_index s = as_sampleIdx s"

text \<open>
  \<^verbatim>\<open>set_sample_index\<close> is declared \<^verbatim>\<open>bool\<close> and has no \<^verbatim>\<open>return\<close> statement. Its body is the
  \<^verbatim>\<open>if\<close> statement; after it control flows off the end of a function that returns a value,
  which is undefined behaviour on every call: the fault \<open>MissingReturn\<close>.
\<close>

definition set_sample_index_body :: "nat \<Rightarrow> 'f AudioSamplerStream \<Rightarrow> 'f AudioSamplerStream" where
  "set_sample_index_body sampleIndex s =
     (if sampleIndex < numSamples (as_file s) then s\<lparr>as_sampleIdx := sampleIndex\<rparr> else s)"

definition set_sample_index ::
  "nat \<Rightarrow> 'f AudioSamplerStream \<Rightarrow> fault + bool \<times> 'f AudioSamplerStream" where
  "set_sample_index sampleIndex s =
     (let s' = set_sample_index_body sampleIndex s in Inl MissingReturn)"

definition setSampleIndex :: "nat \<Rightarrow> 'f AudioSamplerStream \<Rightarrow> 'f AudioSamplerStream" where
  "setSampleIndex sampleIdx s = s\<lparr>as_sampleIdx := min sampleIdx (numSamples (as_file s))\<rparr>"

definition sampleIndex :: "'f AudioSamplerStream \<Rightarrow> nat" where
  "sampleIndex s = as_sampleIdx s"

definition reset :: "'f AudioSamplerStream \<Rightarrow> 'f AudioSamplerStream" where
  "reset s = setSampleIndex 0 s"

definition atEOF :: "'f AudioSamplerStream \<Rightarrow> bool" where
  "atEOF s = (as_sampleIdx s \<ge> numSamples (as_file s))"

subsection \<open>load\<close>

text \<open>The size in bytes that \<^verbatim>\<open>loadIntroBuffer\<close> asks for, from the offset of sample 0.\<close>

definition introBufBytes :: "SampleType \<Rightarrow> nat \<Rightarrow> nat" where
  "introBufBytes st fileOffset =
     (if fileOffset < BlockSize then (BlockSize - fileOffset) + BlockSize
      else if fileOffset mod BlockSize \<noteq> 0
      then (((fileOffset div BlockSize) * BlockSize) + BlockSize) - fileOffset + BlockSize
      else IntroBufCapacity st * sizeof st)"

definition loadIntroBuffer ::
  "'f FileWrapper \<Rightarrow> SampleType \<Rightarrow> 'f AudioSamplerStream \<Rightarrow>
     fault + AudioSamplerError \<times> 'f AudioSamplerStream" where
  "loadIntroBuffer ops st s =
     (case WavLoader_seek ops 0 (as_file s) of
        Inl e \<Rightarrow> Inl e
      | Inr (ok, w1) \<Rightarrow>
          (case WavLoader_read ops
                  (uint32_t (int (introBufBytes st (filePositionForSample w1 0)))) w1 of
             Inl e \<Rightarrow> Inl e
           | Inr (numRead, w2) \<Rightarrow>
               if numRead > 0
               then Inr (NoErr, s\<lparr>as_file := w2, as_introBufSize := numRead div sizeof st\<rparr>)
               else Inr (BadFile, s\<lparr>as_file := w2\<rparr>)))"

text \<open>
  \<^verbatim>\<open>load\<close> calls \<^verbatim>\<open>loadIntroBuffer()\<close> as a statement: the error it returns is dropped.
\<close>

definition load ::
  "'f FileWrapper \<Rightarrow> SampleType \<Rightarrow> 'f option \<Rightarrow> 'f AudioSamplerStream \<Rightarrow>
     (fault + AudioSamplerError \<times> 'f AudioSamplerStream) option" where
  "load ops st file s =
     (case WavLoader_open ops file (as_file s) of
        None \<Rightarrow> None
      | Some (Inl e) \<Rightarrow> Some (Inl e)
      | Some (Inr (ok, w, hs)) \<Rightarrow>
          if ok then
            (if bitsPerSample w \<noteq> sizeof st * 8
             then Some (Inr (BadSampleSize, s\<lparr>as_file := w\<rparr>))
             else
               (case loadIntroBuffer ops st (s\<lparr>as_file := w\<rparr>) of
                  Inl e \<Rightarrow> Some (Inl e)
                | Inr (err, s1) \<Rightarrow>
                    Some (Inr (NoErr,
                      s1\<lparr>as_readHead := IntroBuf 0, as_sampleIdx := 0,
                         as_bufBlockMap := replicate NumBlocks UnmappedBlock\<rparr>))))
          else Some (Inr (BadFile, s\<lparr>as_file := w\<rparr>)))"

subsection \<open>read\<close>

text \<open>The conversion of an unsigned value to \<^verbatim>\<open>int\<close> (32 bits, two's complement).\<close>

definition to_int :: "nat \<Rightarrow> int" where
  "to_int x = (int x + 2 ^ 31) mod 2 ^ 32 - 2 ^ 31"

text \<open>
  The first part of \<^verbatim>\<open>read\<close>, from the lead-in buffer: the stream afterwards and
  \<^verbatim>\<open>numSamplesLeft\<close>.
\<close>

definition read_intro ::
  "'f AudioSamplerStream \<Rightarrow> nat \<Rightarrow> 'f AudioSamplerStream \<times> nat" where
  "read_intro s num_samples =
     (if as_sampleIdx s < as_introBufSize s then
        let to_read = (if as_sampleIdx s + num_samples > as_introBufSize s
                       then as_introBufSize s - as_sampleIdx s else num_samples)
        in (s\<lparr>as_readHead := IntroBuf (as_sampleIdx s + to_read),
               as_sampleIdx := uint32_t (int (as_sampleIdx s) + int to_read)\<rparr>,
            num_samples - to_read)
      else (s, num_samples))"

text \<open>The scan of the block map for the slot that holds \<open>fileBlock\<close>.\<close>

definition find_block :: "nat list \<Rightarrow> int \<Rightarrow> nat option" where
  "find_block m fileBlock = List.find (\<lambda>i. to_int (m ! i) = fileBlock) [0..<NumBlocks]"

text \<open>The \<^verbatim>\<open>while (numSamplesLeft > 0)\<close> loop of \<^verbatim>\<open>read\<close>, from the ring cache.\<close>

function read_cache ::
  "SampleType \<Rightarrow> 'f AudioSamplerStream \<Rightarrow> nat \<Rightarrow> 'f AudioSamplerStream \<times> nat" where
  "read_cache st s numSamplesLeft =
     (if numSamplesLeft > 0 then
        let rel = size_t (int (as_sampleIdx s) - int (as_introBufSize s));
            fileBlock = to_int (rel div SamplesPerBlock st);
            fileBlockOffset = rel mod SamplesPerBlock st
        in (case find_block (as_bufBlockMap s) fileBlock of
              None \<Rightarrow> (s, numSamplesLeft)
            | Some i \<Rightarrow>
                let readHead = i * SamplesPerBlock st + fileBlockOffset;
                    nextBlockStart = (i + 1) * SamplesPerBlock st;
                    to_read = (if nextBlockStart - readHead \<le> numSamplesLeft
                               then nextBlockStart - readHead else numSamplesLeft)
                in read_cache st
                     (s\<lparr>as_readHead := RingBuf (readHead + to_read),
                        as_sampleIdx := uint32_t (int (as_sampleIdx s) + int to_read)\<rparr>)
                     (numSamplesLeft - to_read))
      else (s, numSamplesLeft))"
  by pat_completeness auto
termination
proof (relation "measure (\<lambda>(st, s, n). n)", goal_cases)
  case 1
  show ?case by simp
next
  case (2 st s n rel fileBlock fileBlockOffset i readHead nextBlockStart to_read)
  have "0 < SamplesPerBlock st"
    by (cases st) (simp_all add: SamplesPerBlock_def BlockSize_def)
  then have "fileBlockOffset < SamplesPerBlock st"
    using 2 by simp
  then have "0 < nextBlockStart - readHead"
    using 2 by simp
  then show ?case
    using 2 by auto
qed

text \<open>\<^verbatim>\<open>read\<close>: the stream afterwards and the number of samples delivered.\<close>

definition read :: "SampleType \<Rightarrow> nat \<Rightarrow> 'f AudioSamplerStream \<Rightarrow> 'f AudioSamplerStream \<times> nat" where
  "read st num_samples s =
     (case read_intro s num_samples of
        (s1, left1) \<Rightarrow>
          (case read_cache st s1 left1 of
             (s2, numSamplesLeft) \<Rightarrow> (s2, num_samples - numSamplesLeft)))"

subsection \<open>prime\<close>

text \<open>
  The search for the slot furthest from the read head: its index and its distance.
\<close>

definition furthest :: "nat list \<Rightarrow> int \<Rightarrow> nat \<times> int" where
  "furthest m readHeadBlock =
     fold (\<lambda>i (idx, maxDiff).
             let thisDiff = \<bar>int (m ! i) - readHeadBlock\<bar>
             in if thisDiff > maxDiff then (i, thisDiff) else (idx, maxDiff))
          [1..<NumBlocks] (0, \<bar>int (m ! 0) - readHeadBlock\<bar>)"

text \<open>The scan of the block map that sets \<^verbatim>\<open>block = -1\<close> when a slot holds \<open>block\<close>.\<close>

definition have_block :: "nat list \<Rightarrow> int \<Rightarrow> bool" where
  "have_block m block = list_ex (\<lambda>i. int (m ! i) = block) [0..<NumBlocks]"

text \<open>
  The body of the inner \<^verbatim>\<open>for\<close> loop for one candidate \<open>block\<close>: \<open>Break\<close> leaves the inner
  loop, \<open>Skip\<close> goes on to its next turn, \<open>Filled\<close> is \<^verbatim>\<open>return true\<close>.
\<close>

datatype 'f candidate = Filled "'f AudioSamplerStream" | Skip "'f AudioSamplerStream"
  | Break "'f AudioSamplerStream"

definition prime_candidate ::
  "'f FileWrapper \<Rightarrow> SampleType \<Rightarrow> 'f AudioSamplerStream \<Rightarrow> nat \<Rightarrow> int \<Rightarrow>
     fault + 'f candidate" where
  "prime_candidate ops st s idx block =
     (if block < 0 then Inr (Break s)
      else if block * int (SamplesPerBlock st)
                > int (size_t (int (numSamples (as_file s)) - int (as_introBufSize s)))
      then Inr (Break s)
      else if have_block (as_bufBlockMap s) block then Inr (Skip s)
      else
        (case WavLoader_seek ops
                (uint32_t (block * int (SamplesPerBlock st) + int (as_introBufSize s)))
                (as_file s) of
           Inl e \<Rightarrow> Inl e
         | Inr (ok, w1) \<Rightarrow>
             if \<not> ok then Inr (Break (s\<lparr>as_file := w1\<rparr>))
             else
               (case WavLoader_read ops BlockSize w1 of
                  Inl e \<Rightarrow> Inl e
                | Inr (numRead, w2) \<Rightarrow>
                    if numRead > 0
                    then Inr (Filled (s\<lparr>as_file := w2,
                           as_bufBlockMap := (as_bufBlockMap s)[idx := uint32_t block]\<rparr>))
                    else Inr (Skip (s\<lparr>as_file := w2\<rparr>)))))"

text \<open>
  The inner loop \<^verbatim>\<open>for (int sign = 0; sign < 2; offset = -offset, sign++)\<close> at one distance:
  the block ahead, then the block behind.
\<close>

definition prime_distance ::
  "'f FileWrapper \<Rightarrow> SampleType \<Rightarrow> 'f AudioSamplerStream \<Rightarrow> int \<Rightarrow> nat \<Rightarrow> int \<Rightarrow>
     fault + 'f candidate" where
  "prime_distance ops st s readHeadBlock idx absDiff =
     (case prime_candidate ops st s idx (readHeadBlock + absDiff) of
        Inl e \<Rightarrow> Inl e
      | Inr (Filled s') \<Rightarrow> Inr (Filled s')
      | Inr (Break s') \<Rightarrow> Inr (Break s')
      | Inr (Skip s') \<Rightarrow> prime_candidate ops st s' idx (readHeadBlock + (- absDiff)))"

text \<open>The outer loop \<^verbatim>\<open>for (int absDiff = 0; absDiff < maxDiff; absDiff++)\<close>.\<close>

function prime_scan ::
  "'f FileWrapper \<Rightarrow> SampleType \<Rightarrow> 'f AudioSamplerStream \<Rightarrow> int \<Rightarrow> nat \<Rightarrow> int \<Rightarrow> int \<Rightarrow>
     fault + bool \<times> 'f AudioSamplerStream" where
  "prime_scan ops st s readHeadBlock idx maxDiff absDiff =
     (if absDiff < maxDiff then
        (case prime_distance ops st s readHeadBlock idx absDiff of
           Inl e \<Rightarrow> Inl e
         | Inr (Filled s') \<Rightarrow> Inr (True, s')
         | Inr (Skip s') \<Rightarrow> prime_scan ops st s' readHeadBlock idx maxDiff (absDiff + 1)
         | Inr (Break s') \<Rightarrow> prime_scan ops st s' readHeadBlock idx maxDiff (absDiff + 1))
      else Inr (False, s))"
  by pat_completeness auto
termination
  by (relation "measure (\<lambda>(ops, st, s, r, idx, maxDiff, absDiff). nat (maxDiff - absDiff))") auto

definition readHeadBlock_of :: "SampleType \<Rightarrow> 'f AudioSamplerStream \<Rightarrow> int" where
  "readHeadBlock_of st s =
     (if as_sampleIdx s \<ge> as_introBufSize s
      then int ((as_sampleIdx s - as_introBufSize s) div SamplesPerBlock st) else 0)"

definition prime ::
  "'f FileWrapper \<Rightarrow> SampleType \<Rightarrow> 'f AudioSamplerStream \<Rightarrow>
     fault + bool \<times> 'f AudioSamplerStream" where
  "prime ops st s =
     (case furthest (as_bufBlockMap s) (readHeadBlock_of st s) of
        (idx, maxDiff) \<Rightarrow>
          if maxDiff > 0 then prime_scan ops st s (readHeadBlock_of st s) idx maxDiff 0
          else Inr (False, s))"

subsection \<open>Sequences of calls\<close>

datatype call = Prime | Read nat

fun run ::
  "'f FileWrapper \<Rightarrow> SampleType \<Rightarrow> call list \<Rightarrow> 'f AudioSamplerStream \<Rightarrow>
     fault + 'f AudioSamplerStream" where
  "run ops st [] s = Inr s"
| "run ops st (Prime # cs) s =
     (case prime ops st s of Inl e \<Rightarrow> Inl e | Inr (b, s') \<Rightarrow> run ops st cs s')"
| "run ops st (Read n # cs) s = run ops st cs (fst (read st n s))"

text \<open>The stream after \<open>n\<close> calls of \<^verbatim>\<open>prime\<close> in a row.\<close>

fun primes ::
  "'f FileWrapper \<Rightarrow> SampleType \<Rightarrow> nat \<Rightarrow> 'f AudioSamplerStream \<Rightarrow>
     fault + 'f AudioSamplerStream" where
  "primes ops st 0 s = Inr s"
| "primes ops st (Suc n) s =
     (case prime ops st s of Inl e \<Rightarrow> Inl e | Inr (b, s') \<Rightarrow> primes ops st n s')"

text \<open>No two occupied slots of the block map hold the same file block.\<close>

definition no_duplicates :: "nat list \<Rightarrow> bool" where
  "no_duplicates m = distinct (filter (\<lambda>b. b \<noteq> UnmappedBlock) (take NumBlocks m))"

text \<open>
  The values the C++ types and a successful \<^verbatim>\<open>load\<close> give the members that \<^verbatim>\<open>prime\<close> reads:
  the cursor is a \<^verbatim>\<open>uint32_t\<close>, the block map has \<open>NumBlocks\<close> entries, each a block number
  or \<^verbatim>\<open>INT_MAX\<close>, and \<^verbatim>\<open>_file\<close> of the loader is not \<^verbatim>\<open>NULL\<close>.
\<close>

definition stream_ok :: "'f AudioSamplerStream \<Rightarrow> bool" where
  "stream_ok s =
     (as_sampleIdx s < 2 ^ 32 \<and> length (as_bufBlockMap s) = NumBlocks \<and>
      list_all (\<lambda>b. b \<le> UnmappedBlock) (as_bufBlockMap s) \<and>
      wl_file (as_file s) \<noteq> None)"

text \<open>
  What \<^verbatim>\<open>prime\<close> leaves alone: the cursor, the size of the lead-in, and \<^verbatim>\<open>_file\<close> being set.
\<close>

definition untouched :: "'f AudioSamplerStream \<Rightarrow> 'f AudioSamplerStream \<Rightarrow> bool" where
  "untouched s s' =
     (as_sampleIdx s' = as_sampleIdx s \<and> as_introBufSize s' = as_introBufSize s \<and>
      wl_file (as_file s') \<noteq> None)"

fun candidate_stream :: "'f candidate \<Rightarrow> 'f AudioSamplerStream" where
  "candidate_stream (Filled s) = s"
| "candidate_stream (Skip s) = s"
| "candidate_stream (Break s) = s"

text \<open>The distances of the slots from a block, summed: what a fill makes smaller.\<close>

definition spread :: "nat list \<Rightarrow> int \<Rightarrow> nat" where
  "spread m readHeadBlock = nat (sum_list (map (\<lambda>b. \<bar>int b - readHeadBlock\<bar>) m))"

text \<open>
  Of the chunk headers \<^verbatim>\<open>open\<close> consumed: the declared length of the last \<^verbatim>\<open>data\<close> chunk,
  when no \<^verbatim>\<open>fmt\<close> chunk was consumed after it.
\<close>

definition data_chunk_length :: "RIFFChunkHeader list \<Rightarrow> nat option" where
  "data_chunk_length hs =
     fold (\<lambda>h r. if chunk_tag h = DATA_TAG then Some (chunk_size h)
                  else if chunk_tag h = FMT_TAG then None else r) hs None"

section \<open>Containers and streams used as concrete inputs\<close>

text \<open>The four bytes of a little-endian 32-bit length.\<close>

definition le32_bytes :: "nat \<Rightarrow> byte list" where
  "le32_bytes n = [of_nat n, of_nat (n div 256), of_nat (n div 65536), of_nat (n div 16777216)]"

text \<open>The payload of a \<^verbatim>\<open>fmt\<close> chunk: PCM, one channel, 8000 Hz, 16 bits, frames of 2 bytes.\<close>

definition mono16_format :: "byte list" where
  "mono16_format = [1, 0, 1, 0, 0x40, 0x1F, 0, 0, 0x80, 0x3E, 0, 0, 2, 0, 16, 0]"

text \<open>
  A mono 16-bit container whose \<^verbatim>\<open>data\<close> chunk declares \<open>n\<close> bytes and holds \<open>n\<close> zero
  bytes, and the closed file that holds it.
\<close>

definition mono16_bytes :: "nat \<Rightarrow> byte list" where
  "mono16_bytes n =
     RIFF_TAG @ le32_bytes (36 + n) @ WAVE_TAG @
     FMT_TAG @ le32_bytes 16 @ mono16_format @
     DATA_TAG @ le32_bytes n @ replicate n 0"

definition mono16_wav :: "nat \<Rightarrow> PosixFile" where
  "mono16_wav n = \<lparr> pf_bytes = mono16_bytes n, pf_stream = None \<rparr>"

text \<open>A container whose \<^verbatim>\<open>data\<close> chunk (4 bytes) comes before its \<^verbatim>\<open>fmt\<close> chunk.\<close>

definition data_first_bytes :: "byte list" where
  "data_first_bytes =
     RIFF_TAG @ le32_bytes 40 @ WAVE_TAG @
     DATA_TAG @ le32_bytes 4 @ replicate 4 0 @
     FMT_TAG @ le32_bytes 16 @ mono16_format"

definition data_first_wav :: PosixFile where
  "data_first_wav = \<lparr> pf_bytes = data_first_bytes, pf_stream = None \<rparr>"

text \<open>
  A stereo 16-bit container (frames of 4 bytes) with 2 frames of data, as a closed file.
\<close>

definition stereo16_format :: "byte list" where
  "stereo16_format = [1, 0, 2, 0, 0x40, 0x1F, 0, 0, 0x00, 0x7D, 0, 0, 4, 0, 16, 0]"

definition stereo16_bytes :: "byte list" where
  "stereo16_bytes =
     RIFF_TAG @ le32_bytes 44 @ WAVE_TAG @
     FMT_TAG @ le32_bytes 16 @ stereo16_format @
     DATA_TAG @ le32_bytes 8 @ replicate 8 0"

definition stereo16_wav :: PosixFile where
  "stereo16_wav = \<lparr> pf_bytes = stereo16_bytes, pf_stream = None \<rparr>"

text \<open>
  What \<^verbatim>\<open>load\<close> leaves for \<open>mono16_wav n\<close>: the open file at position \<open>q\<close>, the loader over
  a storage object \<open>f\<close>, and the stream with its lead-in of at most 8148 bytes.
\<close>

definition mono16_file :: "nat \<Rightarrow> nat \<Rightarrow> PosixFile" where
  "mono16_file n q = \<lparr> pf_bytes = mono16_bytes n, pf_stream = Some q \<rparr>"

definition mono16_loader :: "nat \<Rightarrow> 'f \<Rightarrow> 'f WavLoader" where
  "mono16_loader n f =
     \<lparr> wl_format = mono16_format, wl_file = Some f, wl_position = 44,
       wl_length = n div 2, wl_data_offset = 44, wl_file_size = 44 + n \<rparr>"

definition mono16_stream :: "nat \<Rightarrow> 'f \<Rightarrow> 'f AudioSamplerStream" where
  "mono16_stream n f =
     \<lparr> as_readHead = IntroBuf 0, as_sampleIdx = 0, as_file = mono16_loader n f,
       as_introBufSize = min 8148 n div 2,
       as_bufBlockMap = replicate NumBlocks UnmappedBlock \<rparr>"

text \<open>
  The stream over the container with 28648 bytes of data (14324 samples, 4074 of them in
  the lead-in, so file blocks 0 to 5) when the cursor stands in file block 5 and the slots
  hold file blocks 2, 3 and 5.
\<close>

definition near_end_stream :: "PosixFile AudioSamplerStream" where
  "near_end_stream =
     \<lparr> as_readHead = IntroBuf 0, as_sampleIdx = 14314,
       as_file = (mono16_loader 28648 (mono16_file 28648 28692))\<lparr>wl_position := 28672\<rparr>,
       as_introBufSize = 4074, as_bufBlockMap = [2, 3, 5] \<rparr>"

text \<open>A stream as the constructor leaves it, with nothing in its uninitialised members.\<close>

definition fresh_stream :: "'f AudioSamplerStream" where
  "fresh_stream = AudioSamplerStream_new 0 (IntroBuf 0) 0 []"

declare read_cache.simps [simp del]

declare prime_scan.simps [simp del]

section \<open>Facts about the concrete inputs\<close>

lemma le_le32_bytes: "n < 2 ^ 32 \<Longrightarrow> le (le32_bytes n) = n"
proof -
  assume n: "n < 2 ^ 32"
  have a: "n = n mod 256 + 256 * (n div 256)" by simp
  have "n div 256 div 256 = n div (256 * 256)"
    by (rule div_mult2_eq [symmetric])
  then have b1: "n div 256 div 256 = n div 65536" by simp
  have "n div 65536 div 256 = n div (65536 * 256)"
    by (rule div_mult2_eq [symmetric])
  then have c1: "n div 65536 div 256 = n div 16777216" by simp
  have b: "n div 256 = n div 256 mod 256 + 256 * (n div 65536)"
    using b1 mod_mult_div_eq [of "n div 256" 256] by simp
  have c: "n div 65536 = n div 65536 mod 256 + 256 * (n div 16777216)"
    using c1 mod_mult_div_eq [of "n div 65536" 256] by simp
  have "n mod 256 + (256 * (n div 256 mod 256) +
      (65536 * (n div 65536 mod 256) + 16777216 * (n div 16777216))) = n"
    using a b c by linarith
  with n show ?thesis
    by (simp add: le32_bytes_def unat_of_nat)
qed

lemma length_le32_bytes: "length (le32_bytes n) = 4"
  by (simp add: le32_bytes_def)

lemma posix_open: "fw_open PosixFileWrapper f = (True, f\<lparr>pf_stream := Some 0\<rparr>)"
  by (simp add: PosixFileWrapper_def)

lemma posix_close: "fw_close PosixFileWrapper f = f\<lparr>pf_stream := None\<rparr>"
  by (simp add: PosixFileWrapper_def)

lemma posix_seek:
  "pf_stream f = Some q \<Longrightarrow> p < 2 ^ 63 \<Longrightarrow>
   fw_seek PosixFileWrapper p f = (True, f\<lparr>pf_stream := Some p\<rparr>)"
  by (simp add: PosixFileWrapper_def)

lemma posix_read:
  "pf_stream f = Some q \<Longrightarrow>
   fw_read PosixFileWrapper n f =
     (take n (drop q (pf_bytes f)),
      f\<lparr>pf_stream := Some (q + min n (length (pf_bytes f) - q))\<rparr>)"
  by (simp add: PosixFileWrapper_def)

lemma posix_position: "pf_stream f = Some q \<Longrightarrow> fw_position PosixFileWrapper f = int q"
  by (simp add: PosixFileWrapper_def)

lemma length_mono16_bytes: "length (mono16_bytes n) = 44 + n"
  by (simp add: mono16_bytes_def RIFF_TAG_def WAVE_TAG_def FMT_TAG_def DATA_TAG_def
      mono16_format_def le32_bytes_def)

lemma mono16_bytes_at_0: "take 8 (mono16_bytes n) = RIFF_TAG @ le32_bytes (36 + n)"
  by (simp add: mono16_bytes_def RIFF_TAG_def le32_bytes_def)

lemma mono16_bytes_at_8: "take 4 (drop 8 (mono16_bytes n)) = WAVE_TAG"
  by (simp add: mono16_bytes_def RIFF_TAG_def WAVE_TAG_def le32_bytes_def)

lemma mono16_bytes_at_12: "take 8 (drop 12 (mono16_bytes n)) = FMT_TAG @ le32_bytes 16"
  by (simp add: mono16_bytes_def RIFF_TAG_def WAVE_TAG_def FMT_TAG_def le32_bytes_def)

lemma mono16_bytes_at_20: "take 16 (drop 20 (mono16_bytes n)) = mono16_format"
  by (simp add: mono16_bytes_def RIFF_TAG_def WAVE_TAG_def FMT_TAG_def le32_bytes_def
      mono16_format_def)

lemma mono16_bytes_at_36: "take 8 (drop 36 (mono16_bytes n)) = DATA_TAG @ le32_bytes n"
  by (simp add: mono16_bytes_def RIFF_TAG_def WAVE_TAG_def FMT_TAG_def DATA_TAG_def le32_bytes_def
      mono16_format_def)

lemma mono16_bytes_data: "take k (drop (44 + j) (mono16_bytes n)) = replicate (min k (n - j)) 0"
proof -
  have "mono16_bytes n =
      (RIFF_TAG @ le32_bytes (36 + n) @ WAVE_TAG @ FMT_TAG @ le32_bytes 16 @ mono16_format @
       DATA_TAG @ le32_bytes n) @ replicate n 0" (is "_ = ?H @ _")
    by (simp add: mono16_bytes_def)
  moreover have "length ?H = 44"
    by (simp add: RIFF_TAG_def WAVE_TAG_def FMT_TAG_def DATA_TAG_def le32_bytes_def
        mono16_format_def)
  ultimately show ?thesis
    by (simp add: min.commute)
qed

lemma length_tags [simp]:
  "length RIFF_TAG = 4" "length WAVE_TAG = 4" "length FMT_TAG = 4" "length DATA_TAG = 4"
  "length mono16_format = 16"
  by (simp_all add: RIFF_TAG_def WAVE_TAG_def FMT_TAG_def DATA_TAG_def mono16_format_def)

lemma tags_differ [simp]: "DATA_TAG \<noteq> FMT_TAG" "FMT_TAG \<noteq> DATA_TAG"
  by (simp_all add: FMT_TAG_def DATA_TAG_def)

lemma block_align_mono16 [simp]: "block_align mono16_format = 2"
  by (simp add: block_align_def mono16_format_def)

lemma bits_per_sample_mono16 [simp]: "bits_per_sample mono16_format = 16"
  by (simp add: bits_per_sample_def mono16_format_def)

lemma read_chunk_mono16_fmt:
  assumes "wl_file w = Some f" "pf_bytes f = mono16_bytes n" "pf_stream f = Some 12"
    "wl_file_size w = 44 + n"
  shows "read_chunk PosixFileWrapper w =
    Inr (Next (w\<lparr>wl_format := mono16_format, wl_file := Some (f\<lparr>pf_stream := Some 36\<rparr>)\<rparr>)
      (FMT_TAG, 16))"
  using assms
  by (simp add: read_chunk_def posix_read posix_position length_mono16_bytes
      mono16_bytes_at_12 mono16_bytes_at_20 [simplified] chunk_tag_def chunk_size_def
      le_le32_bytes length_le32_bytes after_chunk_def Let_def size_t_def posix_seek)

lemma read_chunk_mono16_data:
  assumes "wl_file w = Some f" "pf_bytes f = mono16_bytes n" "pf_stream f = Some 36"
    "wl_file_size w = 44 + n" "block_align (wl_format w) = b" "0 < b" "n < 2 ^ 32"
  shows "read_chunk PosixFileWrapper w =
    Inr (Return True
      (w\<lparr>wl_length := n div b, wl_data_offset := 44,
         wl_file := Some (f\<lparr>pf_stream := Some 44\<rparr>), wl_position := 0\<rparr>)
      [(DATA_TAG, n)])"
  using assms
  by (simp add: read_chunk_def posix_read posix_position length_mono16_bytes
      mono16_bytes_at_36 chunk_tag_def chunk_size_def
      le_le32_bytes length_le32_bytes after_chunk_def Let_def uint32_t_def)

lemma open_mono16:
  assumes "n < 2 ^ 32 - 44"
  shows "WavLoader_open PosixFileWrapper (Some (mono16_wav n)) w =
    Some (Inr (True,
      w\<lparr>wl_format := mono16_format,
        wl_file := Some \<lparr>pf_bytes = mono16_bytes n, pf_stream = Some 44\<rparr>,
        wl_position := 0, wl_length := n div 2, wl_data_offset := 44,
        wl_file_size := 44 + n\<rparr>,
      [(FMT_TAG, 16), (DATA_TAG, n)]))"
proof -
  let ?f = "\<lambda>q. \<lparr>pf_bytes = mono16_bytes n, pf_stream = Some q\<rparr>"
  let ?w1 = "w\<lparr>wl_file := Some (?f 12), wl_file_size := 44 + n\<rparr>"
  have size: "uint32_t (8 + int (le (le32_bytes (36 + n)))) = 44 + n"
    using assms by (simp add: le_le32_bytes uint32_t_def)
  have start: "WavLoader_open PosixFileWrapper (Some (mono16_wav n)) w =
      scan_chunks PosixFileWrapper ?w1 []"
    using size
    by (simp add: WavLoader_open_def mono16_wav_def posix_open posix_seek posix_read
        length_mono16_bytes mono16_bytes_at_0 mono16_bytes_at_8 length_le32_bytes)
  note fmt = read_chunk_mono16_fmt [where f = "?f 12" and n = n]
  note data = read_chunk_mono16_data [where f = "?f 36" and n = n and b = 2]
  show ?thesis
    unfolding start
    using assms
    apply (subst scan_chunks.simps)
    apply (simp add: fmt)
    apply (subst scan_chunks.simps)
    apply (simp add: data)
    done
qed

lemma introBufBytes_44 [simp]: "introBufBytes st 44 = 8148"
  by (simp add: introBufBytes_def BlockSize_def)

lemma load_mono16:
  assumes "0 < n" "n < 2 ^ 32 - 44"
  shows "load PosixFileWrapper Int16 (Some (mono16_wav n)) s =
    Some (Inr (NoErr, mono16_stream n (mono16_file n (44 + min 8148 n))))"
  using assms
  apply (simp add: load_def open_mono16 bitsPerSample_def loadIntroBuffer_def WavLoader_seek_def
      WavLoader_read_def filePositionForSample_def numSamples_def frameAlignment_def uint32_t_def
      posix_seek posix_read length_mono16_bytes mono16_bytes_data [where j = 0, simplified]
      mono16_stream_def mono16_loader_def mono16_file_def)
  done


lemma le_zeros [simp]: "le (replicate k 0) = 0"
  by (induction k) simp_all

lemma block_align_new [simp]: "block_align (wl_format (WavLoader_new p)) = 0"
  by (simp add: WavLoader_new_def block_align_def)

lemma data_first_at_0: "take 8 data_first_bytes = RIFF_TAG @ le32_bytes 40"
  by (simp add: data_first_bytes_def RIFF_TAG_def le32_bytes_def)

lemma data_first_at_8: "take 4 (drop 8 data_first_bytes) = WAVE_TAG"
  by (simp add: data_first_bytes_def RIFF_TAG_def WAVE_TAG_def le32_bytes_def)

lemma data_first_at_12: "take 8 (drop 12 data_first_bytes) = DATA_TAG @ le32_bytes 4"
  by (simp add: data_first_bytes_def RIFF_TAG_def WAVE_TAG_def DATA_TAG_def le32_bytes_def)

lemma length_data_first: "length data_first_bytes = 48"
  by (simp add: data_first_bytes_def RIFF_TAG_def WAVE_TAG_def DATA_TAG_def FMT_TAG_def le32_bytes_def)

lemma open_mono16_new:
  "n < 2 ^ 32 - 44 \<Longrightarrow>
   WavLoader_open PosixFileWrapper (Some (mono16_wav n)) (WavLoader_new p) =
     Some (Inr (True, (mono16_loader n (mono16_file n 44))\<lparr>wl_position := 0\<rparr>,
       [(FMT_TAG, 16), (DATA_TAG, n)]))"
  by (simp add: open_mono16 WavLoader_new_def mono16_loader_def mono16_file_def)

lemma data_chunk_length_mono16 [simp]:
  "data_chunk_length [(FMT_TAG, 16), (DATA_TAG, n)] = Some n"
  by (simp add: data_chunk_length_def chunk_tag_def chunk_size_def)

section \<open>The cursor\<close>

text \<open>
  C10. The body of \<^verbatim>\<open>set_sample_index(i)\<close> sets the cursor to \<open>i\<close> when \<open>i\<close> is below the sample
  count and leaves the stream as it was otherwise, where \<^verbatim>\<open>setSampleIndex(i)\<close> clips; but the
  function then flows off its end without a \<^verbatim>\<open>return\<close>, so every call is undefined
  behaviour. On the stream loaded from the 4-sample container: the body puts the cursor
  at 2 for the index 2 and changes nothing for the index 9, \<^verbatim>\<open>setSampleIndex(9)\<close> puts the
  cursor at 4, and both calls of \<^verbatim>\<open>set_sample_index\<close> are the fault \<open>MissingReturn\<close>.
\<close>

theorem set_sample_index_flows_off_its_end:
  "set_sample_index 2 (mono16_stream 8 (mono16_file 8 52)) = Inl MissingReturn \<and>
   set_sample_index 9 (mono16_stream 8 (mono16_file 8 52)) = Inl MissingReturn \<and>
   sample_index (set_sample_index_body 2 (mono16_stream 8 (mono16_file 8 52))) = 2 \<and>
   set_sample_index_body 9 (mono16_stream 8 (mono16_file 8 52))
     = mono16_stream 8 (mono16_file 8 52) \<and>
   sample_index (setSampleIndex 9 (mono16_stream 8 (mono16_file 8 52))) = 4"
  by (simp add: set_sample_index_def set_sample_index_body_def mono16_stream_def
      mono16_loader_def numSamples_def sample_index_def setSampleIndex_def)

text \<open>The call is the fault at every index and on every stream.\<close>

lemma set_sample_index_always_faults: "set_sample_index i s = Inl MissingReturn"
  by (simp add: set_sample_index_def)

section \<open>WavLoader::seek and WavLoader::position\<close>

lemma WavLoader_seek_position:
  "WavLoader_seek ops i w = Inr (ok, w') \<Longrightarrow> WavLoader_position w' = filePositionForSample w i"
  by (auto simp: WavLoader_seek_def WavLoader_position_def split: option.splits prod.splits)


text \<open>
  C6. After a successful \<^verbatim>\<open>seek(i)\<close> the storage handle stands at
  \<open>dataOffset + min i sampleCount * frameSize\<close>, but \<^verbatim>\<open>_position\<close> holds that byte offset too,
  not the clipped sample index: on the loader of the 4096-sample container (data at byte
  44, frames of 2 bytes) \<^verbatim>\<open>seek(10)\<close> succeeds, the file stands at byte 64, and
  \<^verbatim>\<open>position()\<close> returns 64 where the clipped sample index is 10.
\<close>

theorem seek_records_byte_offset:
  "\<exists>w'. WavLoader_seek PosixFileWrapper 10 (mono16_loader 8192 (mono16_file 8192 44)) = Inr (True, w')
     \<and> WavLoader_position w' = 64
     \<and> pf_stream (the (wl_file w')) = Some 64
     \<and> min 10 (numSamples (mono16_loader 8192 (mono16_file 8192 44))) = 10"
  by (simp add: WavLoader_seek_def WavLoader_position_def mono16_loader_def mono16_file_def
      filePositionForSample_def numSamples_def frameAlignment_def uint32_t_def posix_seek)

section \<open>WavLoader::open\<close>

text \<open>
  C4. \<^verbatim>\<open>open\<close> divides a \<^verbatim>\<open>data\<close> chunk's declared length by \<^verbatim>\<open>_format.block_align\<close> as it
  stands when the chunk is met. On a newly constructed loader that is zero, and on a
  container whose \<^verbatim>\<open>data\<close> chunk precedes its \<^verbatim>\<open>fmt\<close> chunk \<^verbatim>\<open>open\<close> performs the division
  by zero.
\<close>

theorem open_data_before_fmt_divides_by_zero:
  "frameAlignment (WavLoader_new 0 :: PosixFile WavLoader) = 0 \<and>
   WavLoader_open PosixFileWrapper (Some data_first_wav) (WavLoader_new 0) = Some (Inl DivisionByZero)"
proof -
  have "WavLoader_open PosixFileWrapper (Some data_first_wav) (WavLoader_new 0) =
      scan_chunks PosixFileWrapper
        ((WavLoader_new 0)\<lparr>wl_file := Some \<lparr>pf_bytes = data_first_bytes, pf_stream = Some 12\<rparr>,
           wl_file_size := 48\<rparr>) []"
    by (simp add: WavLoader_open_def data_first_wav_def posix_open posix_seek posix_read
        length_data_first data_first_at_0 data_first_at_8 length_le32_bytes le_le32_bytes
        uint32_t_def)
  moreover have "read_chunk PosixFileWrapper
        ((WavLoader_new 0)\<lparr>wl_file := Some \<lparr>pf_bytes = data_first_bytes, pf_stream = Some 12\<rparr>,
           wl_file_size := 48\<rparr>) = Inl DivisionByZero"
    by (simp add: read_chunk_def posix_read posix_position length_data_first data_first_at_12
        length_le32_bytes chunk_tag_def chunk_size_def Let_def)
  ultimately show ?thesis
    by (simp add: scan_chunks.simps frameAlignment_def)
qed

lemma data_chunk_length_snoc:
  "data_chunk_length (hs @ [h]) =
     (if chunk_tag h = DATA_TAG then Some (chunk_size h)
      else if chunk_tag h = FMT_TAG then None else data_chunk_length hs)"
  by (simp add: data_chunk_length_def)

lemma after_chunk_Return:
  "after_chunk ops w f nx h = Return ok w' hl \<Longrightarrow>
     hl = [h] \<and> wl_format w' = wl_format w \<and> wl_length w' = wl_length w"
  by (auto simp: after_chunk_def split: if_splits prod.splits bool.splits)

lemma after_chunk_Next:
  "after_chunk ops w f nx h = Next w' h' \<Longrightarrow>
     h' = h \<and> wl_format w' = wl_format w \<and> wl_length w' = wl_length w"
  by (auto simp: after_chunk_def split: if_splits prod.splits bool.splits)

text \<open>What one turn of the loop does to the relation between sample count and frame size.\<close>

lemma read_chunk_step:
  assumes inv: "\<And>n. data_chunk_length hs = Some n \<Longrightarrow>
      0 < block_align (wl_format w) \<and> wl_length w = n div block_align (wl_format w)"
    and step: "read_chunk ops w = Inr (Return True w' [h]) \<or> read_chunk ops w = Inr (Next w' h)"
    and len: "data_chunk_length (hs @ [h]) = Some n"
  shows "0 < block_align (wl_format w') \<and> wl_length w' = n div block_align (wl_format w')"
  using step len inv
  apply (auto simp: read_chunk_def Let_def data_chunk_length_snoc chunk_tag_def chunk_size_def
      split: option.splits prod.splits if_splits
      dest!: after_chunk_Return after_chunk_Next)
  done


lemma read_chunk_Return_True:
  "read_chunk ops w = Inr (Return True w' hl) \<Longrightarrow> \<exists>h. hl = [h]"
  by (auto simp: read_chunk_def Let_def split: option.splits prod.splits if_splits
      dest!: after_chunk_Return)

lemma scan_chunks_sample_count:
  assumes "scan_chunks ops w hs = Some y"
  shows "y = Inr (True, w', hs') \<Longrightarrow>
     (\<And>n. data_chunk_length hs = Some n \<Longrightarrow>
        0 < block_align (wl_format w) \<and> wl_length w = n div block_align (wl_format w)) \<Longrightarrow>
     data_chunk_length hs' = Some n \<Longrightarrow>
     0 < block_align (wl_format w') \<and> wl_length w' = n div block_align (wl_format w')"
  using assms
proof (induction arbitrary: w' hs' n rule: scan_chunks.raw_induct [rotated 1, consumes 1])
  case step: (1 scan ops w hs y)
  show ?case
  proof (cases "read_chunk ops w")
    case (Inl e)
    with step.hyps step.prems show ?thesis by simp
  next
    case (Inr c)
    show ?thesis
    proof (cases c)
      case (Return ok w1 hl)
      with Inr step.hyps step.prems(1) have y: "ok = True" "w1 = w'" "hs' = hs @ hl" by simp_all
      with Inr Return obtain h where h: "hl = [h]"
        using read_chunk_Return_True by blast
      show ?thesis
        using read_chunk_step [of hs w ops w' h n] step.prems Inr Return y h by simp
    next
      case (Next w1 h)
      with Inr step.hyps have run: "scan ops w1 (hs @ [h]) = Some y" by simp
      have "\<And>m. data_chunk_length (hs @ [h]) = Some m \<Longrightarrow>
          0 < block_align (wl_format w1) \<and> wl_length w1 = m div block_align (wl_format w1)"
        using read_chunk_step [of hs w ops w1 h] step.prems(2) Inr Next by simp
      then show ?thesis
        using step.IH [OF run step.prems(1)] step.prems(3) by blast
    qed
  qed
qed

lemma data_chunk_length_Nil [simp]: "data_chunk_length [] = None"
  by (simp add: data_chunk_length_def)

text \<open>
  C7, as amended. For every container that \<^verbatim>\<open>open\<close> accepts, with \<open>n\<close> the declared length
  of its (last) \<^verbatim>\<open>data\<close> chunk and no \<^verbatim>\<open>fmt\<close> chunk after it: the frame size is positive, the
  sample count is \<open>n\<close> divided by the frame size with the remainder dropped, so
  \<open>sampleCount * frameSize\<close> is at most \<open>n\<close> and misses it by less than one frame, and it
  equals \<open>n\<close> exactly when the frame size divides \<open>n\<close>.
\<close>

theorem open_sample_count_is_quotient:
  assumes "WavLoader_open ops wrapper w0 = Some (Inr (True, w, hs))"
    and "data_chunk_length hs = Some n"
  shows "0 < frameAlignment w \<and> numSamples w = n div frameAlignment w \<and>
     numSamples w * frameAlignment w \<le> n \<and> n < numSamples w * frameAlignment w + frameAlignment w \<and>
     (numSamples w * frameAlignment w = n \<longleftrightarrow> frameAlignment w dvd n)"
proof -
  from assms(1) obtain w1 where "scan_chunks ops w1 [] = Some (Inr (True, w, hs))"
    by (auto simp: WavLoader_open_def split: option.splits prod.splits bool.splits if_splits)
  then have q: "0 < block_align (wl_format w) \<and> wl_length w = n div block_align (wl_format w)"
    using scan_chunks_sample_count [of ops w1 "[]" "Inr (True, w, hs)" w hs n] assms(2) by simp
  then have "0 < frameAlignment w" "numSamples w = n div frameAlignment w"
    by (simp_all add: frameAlignment_def numSamples_def)
  moreover from this have "numSamples w * frameAlignment w \<le> n"
    by simp
  moreover from \<open>0 < frameAlignment w\<close> \<open>numSamples w = n div frameAlignment w\<close>
  have "n < numSamples w * frameAlignment w + frameAlignment w"
    using dividend_less_div_times [of "frameAlignment w" n] by (simp add: ac_simps)
  moreover from \<open>numSamples w = n div frameAlignment w\<close>
  have "numSamples w * frameAlignment w = n \<longleftrightarrow> frameAlignment w dvd n"
    by (metis dvd_div_mult_self dvd_triv_right)
  ultimately show ?thesis by blast
qed

text \<open>C7 as amended, at the container with 8 bytes of data in frames of 2 bytes.\<close>

theorem open_sample_count_witness:
  "WavLoader_open PosixFileWrapper (Some (mono16_wav 8)) (WavLoader_new 0) =
     Some (Inr (True, (mono16_loader 8 (mono16_file 8 44))\<lparr>wl_position := 0\<rparr>,
       [(FMT_TAG, 16), (DATA_TAG, 8)])) \<and>
   data_chunk_length [(FMT_TAG, 16), (DATA_TAG, 8)] = Some 8 \<and>
   frameAlignment ((mono16_loader 8 (mono16_file 8 44))\<lparr>wl_position := 0\<rparr>) = 2 \<and>
   numSamples ((mono16_loader 8 (mono16_file 8 44))\<lparr>wl_position := 0\<rparr>) = 4"
proof -
  have o: "WavLoader_open PosixFileWrapper (Some (mono16_wav 8)) (WavLoader_new 0) =
     Some (Inr (True, (mono16_loader 8 (mono16_file 8 44))\<lparr>wl_position := 0\<rparr>,
       [(FMT_TAG, 16), (DATA_TAG, 8)]))"
    by (simp add: open_mono16_new)
  have d: "data_chunk_length [(FMT_TAG, 16), (DATA_TAG, 8)] = Some 8"
    by simp
  show ?thesis
    using open_sample_count_is_quotient [OF o d] o
    by (simp add: frameAlignment_def numSamples_def mono16_loader_def)
qed

text \<open>
  C7 as stated fails: the container whose \<^verbatim>\<open>data\<close> chunk declares 5 bytes in frames of 2
  bytes is accepted, and \<open>sampleCount * frameSize\<close> is 4.
\<close>

theorem open_drops_partial_frame:
  "WavLoader_open PosixFileWrapper (Some (mono16_wav 5)) (WavLoader_new 0) =
     Some (Inr (True, (mono16_loader 5 (mono16_file 5 44))\<lparr>wl_position := 0\<rparr>,
       [(FMT_TAG, 16), (DATA_TAG, 5)])) \<and>
   data_chunk_length [(FMT_TAG, 16), (DATA_TAG, 5)] = Some 5 \<and>
   numSamples ((mono16_loader 5 (mono16_file 5 44))\<lparr>wl_position := 0\<rparr>) *
     frameAlignment ((mono16_loader 5 (mono16_file 5 44))\<lparr>wl_position := 0\<rparr>) = 4"
  by (simp add: open_mono16_new frameAlignment_def numSamples_def mono16_loader_def)

section \<open>load\<close>

text \<open>
  C2, as amended. When \<^verbatim>\<open>open\<close> succeeds, the sample size matches and the storage read that
  fills the lead-in buffer transfers at least one byte, be it fewer than requested,
  \<^verbatim>\<open>load\<close> reports \<open>NoErr\<close>: the lead-in's logical size is the number of whole samples
  obtained, the cursor is 0 and every slot is unmapped.
\<close>

theorem load_accepts_short_lead_in:
  assumes "WavLoader_open ops file (as_file s) = Some (Inr (True, w, hs))"
    and "bitsPerSample w = sizeof st * 8"
    and "WavLoader_seek ops 0 w = Inr (ok, w1)"
    and "WavLoader_read ops (uint32_t (int (introBufBytes st (filePositionForSample w1 0)))) w1
           = Inr (numRead, w2)"
    and "0 < numRead"
  shows "load ops st file s =
     Some (Inr (NoErr,
       \<lparr> as_readHead = IntroBuf 0, as_sampleIdx = 0, as_file = w2,
         as_introBufSize = numRead div sizeof st,
         as_bufBlockMap = replicate NumBlocks UnmappedBlock \<rparr>))"
  using assms by (simp add: load_def loadIntroBuffer_def)

text \<open>C2 as amended, at the container with 8 bytes of data: 8 of 8148 bytes arrive.\<close>

theorem load_short_lead_in_witness:
  "bitsPerSample ((mono16_loader 8 (mono16_file 8 44))\<lparr>wl_position := 0\<rparr>) = sizeof Int16 * 8 \<and>
   WavLoader_read PosixFileWrapper 8148 (mono16_loader 8 (mono16_file 8 44))
     = Inr (8, mono16_loader 8 (mono16_file 8 52)) \<and>
   load PosixFileWrapper Int16 (Some (mono16_wav 8)) fresh_stream =
     Some (Inr (NoErr,
       \<lparr> as_readHead = IntroBuf 0, as_sampleIdx = 0, as_file = mono16_loader 8 (mono16_file 8 52),
         as_introBufSize = 4, as_bufBlockMap = replicate NumBlocks UnmappedBlock \<rparr>))"
proof -
  let ?w = "(mono16_loader 8 (mono16_file 8 44))\<lparr>wl_position := 0\<rparr>"
  have o: "WavLoader_open PosixFileWrapper (Some (mono16_wav 8)) (as_file fresh_stream) =
      Some (Inr (True, ?w, [(FMT_TAG, 16), (DATA_TAG, 8)]))"
    by (simp add: fresh_stream_def AudioSamplerStream_new_def open_mono16_new)
  have b: "bitsPerSample ?w = sizeof Int16 * 8"
    by (simp add: bitsPerSample_def mono16_loader_def)
  have k: "WavLoader_seek PosixFileWrapper 0 ?w = Inr (True, mono16_loader 8 (mono16_file 8 44))"
    by (simp add: WavLoader_seek_def mono16_loader_def mono16_file_def filePositionForSample_def
        numSamples_def frameAlignment_def uint32_t_def posix_seek)
  have r: "WavLoader_read PosixFileWrapper
      (uint32_t (int (introBufBytes Int16 (filePositionForSample (mono16_loader 8 (mono16_file 8 44)) 0))))
      (mono16_loader 8 (mono16_file 8 44)) = Inr (8, mono16_loader 8 (mono16_file 8 52))"
    by (simp add: WavLoader_read_def mono16_loader_def mono16_file_def filePositionForSample_def
        numSamples_def frameAlignment_def uint32_t_def posix_read length_mono16_bytes
        mono16_bytes_data [where j = 0, simplified])
  have p: "(0::nat) < 8" by simp
  show ?thesis
    using load_accepts_short_lead_in [OF o b k r p] b r
    by (simp add: filePositionForSample_def mono16_loader_def numSamples_def frameAlignment_def
        uint32_t_def)
qed

text \<open>
  C2 as stated fails: on the container with 8 bytes of data the read of the lead-in asks
  for 8148 bytes and transfers 8, and \<^verbatim>\<open>load\<close> reports \<open>NoErr\<close> with a lead-in of 4 samples.
\<close>

theorem load_reports_success_on_short_read:
  "length (fst (fw_read PosixFileWrapper 8148 (mono16_file 8 44))) = 8 \<and>
   load PosixFileWrapper Int16 (Some (mono16_wav 8)) fresh_stream =
     Some (Inr (NoErr, mono16_stream 8 (mono16_file 8 52))) \<and>
   as_introBufSize (mono16_stream 8 (mono16_file 8 52) :: PosixFile AudioSamplerStream) = 4"
  by (simp add: load_mono16 posix_read mono16_file_def length_mono16_bytes
      mono16_bytes_data [where j = 0, simplified] mono16_stream_def)

section \<open>prime and the block map\<close>

lemma upt_NumBlocks:
  "[0..<NumBlocks] = [0, 1, 2]" "[1..<NumBlocks] = [1, 2]" "[Suc 0..<NumBlocks] = [1, 2]"
  by (simp_all add: NumBlocks_def upt_conv_Cons)

lemma SamplesPerBlock_ge: "1024 \<le> SamplesPerBlock st"
  by (cases st) (simp_all add: SamplesPerBlock_def BlockSize_def)

lemma furthest_spec:
  assumes "furthest m r = (idx, maxDiff)"
  shows "idx < NumBlocks \<and> maxDiff = \<bar>int (m ! idx) - r\<bar> \<and>
     (\<forall>i<NumBlocks. \<bar>int (m ! i) - r\<bar> \<le> maxDiff)"
proof -
  have i3: "\<And>i. i < NumBlocks \<longleftrightarrow> i = 0 \<or> i = 1 \<or> i = 2"
    by (auto simp: NumBlocks_def)
  show ?thesis
    using assms
    by (auto simp: furthest_def upt_NumBlocks Let_def i3 split: if_splits)
qed

lemma have_block_iff:
  "have_block m block \<longleftrightarrow> (\<exists>i<NumBlocks. int (m ! i) = block)"
  by (auto simp: have_block_def list_ex_iff)

text \<open>What one candidate can do to the stream.\<close>

lemma prime_candidate_cases:
  assumes "wl_file (as_file s) \<noteq> None"
  shows "\<exists>c. prime_candidate ops st s idx block = Inr c \<and> untouched s (candidate_stream c) \<and>
     (case c of
        Filled s' \<Rightarrow> 0 \<le> block \<and> \<not> have_block (as_bufBlockMap s) block \<and>
          as_bufBlockMap s' = (as_bufBlockMap s)[idx := uint32_t block]
      | Skip s' \<Rightarrow> as_bufBlockMap s' = as_bufBlockMap s
      | Break s' \<Rightarrow> as_bufBlockMap s' = as_bufBlockMap s)"
  using assms
  by (auto simp: prime_candidate_def WavLoader_seek_def WavLoader_read_def untouched_def
      split: option.splits prod.splits)

lemma untouched_trans: "untouched s t \<Longrightarrow> untouched t u \<Longrightarrow> untouched s u"
  by (simp add: untouched_def)

lemma untouched_refl: "wl_file (as_file s) \<noteq> None \<Longrightarrow> untouched s s"
  by (simp add: untouched_def)

lemma prime_distance_cases:
  assumes "wl_file (as_file s) \<noteq> None"
  shows "\<exists>c. prime_distance ops st s r idx d = Inr c \<and> untouched s (candidate_stream c) \<and>
     (case c of
        Filled s' \<Rightarrow> (\<exists>block. (block = r + d \<or> block = r - d) \<and> 0 \<le> block \<and>
          \<not> have_block (as_bufBlockMap s) block \<and>
          as_bufBlockMap s' = (as_bufBlockMap s)[idx := uint32_t block])
      | Skip s' \<Rightarrow> as_bufBlockMap s' = as_bufBlockMap s
      | Break s' \<Rightarrow> as_bufBlockMap s' = as_bufBlockMap s)"
proof -
  from prime_candidate_cases [OF assms, of ops st idx "r + d"]
  obtain c where c: "prime_candidate ops st s idx (r + d) = Inr c"
    "untouched s (candidate_stream c)"
    "case c of
        Filled s' \<Rightarrow> 0 \<le> r + d \<and> \<not> have_block (as_bufBlockMap s) (r + d) \<and>
          as_bufBlockMap s' = (as_bufBlockMap s)[idx := uint32_t (r + d)]
      | Skip s' \<Rightarrow> as_bufBlockMap s' = as_bufBlockMap s
      | Break s' \<Rightarrow> as_bufBlockMap s' = as_bufBlockMap s"
    by blast
  show ?thesis
  proof (cases c)
    case (Filled s')
    with c show ?thesis by (auto simp: prime_distance_def)
  next
    case (Break s')
    with c show ?thesis by (auto simp: prime_distance_def)
  next
    case (Skip s1)
    with c have s1: "untouched s s1" "as_bufBlockMap s1 = as_bufBlockMap s" by simp_all
    then have "wl_file (as_file s1) \<noteq> None" by (simp add: untouched_def)
    from prime_candidate_cases [OF this, of ops st idx "r - d"]
    obtain c2 where c2: "prime_candidate ops st s1 idx (r - d) = Inr c2"
      "untouched s1 (candidate_stream c2)"
      "case c2 of
        Filled s' \<Rightarrow> 0 \<le> r - d \<and> \<not> have_block (as_bufBlockMap s1) (r - d) \<and>
          as_bufBlockMap s' = (as_bufBlockMap s1)[idx := uint32_t (r - d)]
      | Skip s' \<Rightarrow> as_bufBlockMap s' = as_bufBlockMap s1
      | Break s' \<Rightarrow> as_bufBlockMap s' = as_bufBlockMap s1"
      by blast
    have "prime_distance ops st s r idx d = Inr c2"
      using c(1) Skip c2(1) by (simp add: prime_distance_def)
    moreover have "untouched s (candidate_stream c2)"
      using s1(1) c2(2) by (rule untouched_trans)
    ultimately show ?thesis
      using c2(3) s1(2) by (cases c2) auto
  qed
qed

lemma prime_scan_effect:
  assumes "wl_file (as_file s) \<noteq> None"
  shows "\<exists>b s'. prime_scan ops st s r idx maxDiff a = Inr (b, s') \<and> untouched s s' \<and>
     (if b then \<exists>block d. a \<le> d \<and> d < maxDiff \<and> (block = r + d \<or> block = r - d) \<and> 0 \<le> block \<and>
          \<not> have_block (as_bufBlockMap s) block \<and>
          as_bufBlockMap s' = (as_bufBlockMap s)[idx := uint32_t block]
      else as_bufBlockMap s' = as_bufBlockMap s)"
  using assms
proof (induction ops st s r idx maxDiff a rule: prime_scan.induct)
  case (1 ops st s r idx maxDiff a)
  let ?fill = "\<lambda>m lo s'. \<exists>block d. lo \<le> d \<and> d < maxDiff \<and> (block = r + d \<or> block = r - d) \<and>
      0 \<le> block \<and> \<not> have_block m block \<and> as_bufBlockMap s' = m[idx := uint32_t block]"
  have later: "\<exists>b s'. prime_scan ops st s r idx maxDiff a = Inr (b, s') \<and> untouched s s' \<and>
      (if b then ?fill (as_bufBlockMap s) a s' else as_bufBlockMap s' = as_bufBlockMap s)"
    if eq: "prime_scan ops st s r idx maxDiff a = prime_scan ops st s1 r idx maxDiff (a + 1)"
      and s1: "untouched s s1" "as_bufBlockMap s1 = as_bufBlockMap s"
      and ih: "\<exists>b s'. prime_scan ops st s1 r idx maxDiff (a + 1) = Inr (b, s') \<and> untouched s1 s' \<and>
        (if b then ?fill (as_bufBlockMap s1) (a + 1) s' else as_bufBlockMap s' = as_bufBlockMap s1)"
    for s1
  proof -
    from ih obtain b s' where r: "prime_scan ops st s1 r idx maxDiff (a + 1) = Inr (b, s')"
      "untouched s1 s'"
      "if b then ?fill (as_bufBlockMap s1) (a + 1) s' else as_bufBlockMap s' = as_bufBlockMap s1"
      by blast
    have u: "untouched s s'"
      using s1(1) r(2) by (rule untouched_trans)
    show ?thesis
    proof (cases b)
      case True
      with r(3) obtain block d where bd: "a + 1 \<le> d" "d < maxDiff" "block = r + d \<or> block = r - d"
        "0 \<le> block" "\<not> have_block (as_bufBlockMap s1) block"
        "as_bufBlockMap s' = (as_bufBlockMap s1)[idx := uint32_t block]"
        by auto
      then have "?fill (as_bufBlockMap s) a s'"
        unfolding s1(2) by (intro exI [of _ block] exI [of _ d]) simp
      with True r(1) u eq show ?thesis
        by (intro exI [of _ True] exI [of _ s']) simp
    next
      case False
      with r(1) r(3) u eq s1(2) show ?thesis
        by (intro exI [of _ False] exI [of _ s']) simp
    qed
  qed
  show ?case
  proof (cases "a < maxDiff")
    case False
    with 1(3) show ?thesis
      by (subst prime_scan.simps) (auto simp: untouched_refl)
  next
    case True
    from prime_distance_cases [OF 1(3), of ops st r idx a]
    obtain c where c: "prime_distance ops st s r idx a = Inr c"
      "untouched s (candidate_stream c)"
      "case c of
        Filled s' \<Rightarrow> (\<exists>block. (block = r + a \<or> block = r - a) \<and> 0 \<le> block \<and>
          \<not> have_block (as_bufBlockMap s) block \<and>
          as_bufBlockMap s' = (as_bufBlockMap s)[idx := uint32_t block])
      | Skip s' \<Rightarrow> as_bufBlockMap s' = as_bufBlockMap s
      | Break s' \<Rightarrow> as_bufBlockMap s' = as_bufBlockMap s"
      by blast
    show ?thesis
    proof (cases c)
      case (Filled s')
      with c(3) obtain block where bd: "block = r + a \<or> block = r - a" "0 \<le> block"
        "\<not> have_block (as_bufBlockMap s) block"
        "as_bufBlockMap s' = (as_bufBlockMap s)[idx := uint32_t block]"
        by auto
      with True have "?fill (as_bufBlockMap s) a s'"
        by (intro exI [of _ block] exI [of _ a]) simp
      moreover have "prime_scan ops st s r idx maxDiff a = Inr (True, s')"
        using True c(1) Filled by (subst prime_scan.simps) simp
      moreover have "untouched s s'"
        using c(2) Filled by simp
      ultimately show ?thesis
        by (intro exI [of _ True] exI [of _ s']) simp
    next
      case (Skip s1)
      with c have s1: "untouched s s1" "as_bufBlockMap s1 = as_bufBlockMap s" by simp_all
      then have f1: "wl_file (as_file s1) \<noteq> None" by (simp add: untouched_def)
      have eq: "prime_scan ops st s r idx maxDiff a = prime_scan ops st s1 r idx maxDiff (a + 1)"
        using True c(1) Skip by (subst prime_scan.simps) simp
      show ?thesis
        using eq s1 1(1) [OF True c(1) Skip f1] by (rule later)
    next
      case (Break s1)
      with c have s1: "untouched s s1" "as_bufBlockMap s1 = as_bufBlockMap s" by simp_all
      then have f1: "wl_file (as_file s1) \<noteq> None" by (simp add: untouched_def)
      have eq: "prime_scan ops st s r idx maxDiff a = prime_scan ops st s1 r idx maxDiff (a + 1)"
        using True c(1) Break by (subst prime_scan.simps) simp
      show ?thesis
        using eq s1 1(2) [OF True c(1) Break f1] by (rule later)
    qed
  qed
qed

lemma readHeadBlock_of_range:
  assumes "as_sampleIdx s < 2 ^ 32"
  shows "0 \<le> readHeadBlock_of st s \<and> readHeadBlock_of st s < 4194304"
proof -
  have "(as_sampleIdx s - as_introBufSize s) div SamplesPerBlock st
      \<le> as_sampleIdx s div 1024"
    using SamplesPerBlock_ge [of st]
    by (meson diff_le_self div_le_mono div_le_mono2 le_trans zero_less_numeral)
  also have "\<dots> < 4194304"
    using assms by simp
  finally show ?thesis
    by (simp add: readHeadBlock_of_def)
qed

lemma untouched_readHeadBlock:
  "untouched s s' \<Longrightarrow> readHeadBlock_of st s' = readHeadBlock_of st s"
  by (simp add: untouched_def readHeadBlock_of_def)

text \<open>
  What \<^verbatim>\<open>prime\<close> does to a stream: it never faults, it leaves the cursor alone, and a fill
  puts into one slot a block that no slot held and that is nearer to the read head than
  the block the slot lost.
\<close>

lemma prime_effect:
  assumes ok: "stream_ok s"
  shows "\<exists>b s'. prime ops st s = Inr (b, s') \<and> untouched s s' \<and>
     (if b then \<exists>idx block. idx < NumBlocks \<and> block < UnmappedBlock \<and>
          block \<notin> set (as_bufBlockMap s) \<and>
          \<bar>int block - readHeadBlock_of st s\<bar>
            < \<bar>int (as_bufBlockMap s ! idx) - readHeadBlock_of st s\<bar> \<and>
          as_bufBlockMap s' = (as_bufBlockMap s)[idx := block]
      else as_bufBlockMap s' = as_bufBlockMap s)"
proof -
  let ?m = "as_bufBlockMap s" and ?r = "readHeadBlock_of st s"
  from ok have fl: "wl_file (as_file s) \<noteq> None" and len: "length ?m = NumBlocks"
    and le: "\<And>i. i < NumBlocks \<Longrightarrow> ?m ! i \<le> UnmappedBlock"
    and cur: "as_sampleIdx s < 2 ^ 32"
    by (simp_all add: stream_ok_def list_all_length)
  from readHeadBlock_of_range [OF cur, of st] have r: "0 \<le> ?r" "?r < 4194304"
    by simp_all
  obtain idx maxDiff where f: "furthest ?m ?r = (idx, maxDiff)"
    by (cases "furthest ?m ?r")
  from furthest_spec [OF f] have idx: "idx < NumBlocks" and md: "maxDiff = \<bar>int (?m ! idx) - ?r\<bar>"
    by simp_all
  show ?thesis
  proof (cases "0 < maxDiff")
    case False
    with f fl show ?thesis
      by (intro exI [of _ False] exI [of _ s]) (simp add: prime_def untouched_refl)
  next
    case True
    then have p: "prime ops st s = prime_scan ops st s ?r idx maxDiff 0"
      using f by (simp add: prime_def)
    from prime_scan_effect [OF fl, of ops st ?r idx maxDiff 0]
    obtain b s' where e: "prime_scan ops st s ?r idx maxDiff 0 = Inr (b, s')" "untouched s s'"
      "if b then \<exists>block d. 0 \<le> d \<and> d < maxDiff \<and> (block = ?r + d \<or> block = ?r - d) \<and> 0 \<le> block \<and>
          \<not> have_block ?m block \<and> as_bufBlockMap s' = ?m[idx := uint32_t block]
       else as_bufBlockMap s' = ?m"
      by blast
    show ?thesis
    proof (cases b)
      case False
      with e p show ?thesis
        by (intro exI [of _ False] exI [of _ s']) simp
    next
      case b: True
      with e(3) obtain block d where bd: "0 \<le> d" "d < maxDiff" "block = ?r + d \<or> block = ?r - d"
        "0 \<le> block" "\<not> have_block ?m block" "as_bufBlockMap s' = ?m[idx := uint32_t block]"
        by auto
      have "int (?m ! idx) \<le> 2147483647"
        using le [OF idx] by (simp add: UnmappedBlock_def)
      with md r have "maxDiff \<le> 2147483647 - ?r \<or> maxDiff \<le> ?r"
        by linarith
      with bd r have small: "block < 2147483647"
        by linarith
      with bd(4) have u: "uint32_t block = nat block"
        by (simp add: uint32_t_def)
      have 1: "nat block < UnmappedBlock"
        using small bd(4) by (simp add: UnmappedBlock_def)
      have 2: "nat block \<notin> set ?m"
      proof
        assume "nat block \<in> set ?m"
        then obtain i where "i < length ?m" "?m ! i = nat block"
          by (auto simp: in_set_conv_nth)
        with len bd(4) have "\<exists>i<NumBlocks. int (?m ! i) = block"
          by auto
        with bd(5) show False
          by (simp add: have_block_iff)
      qed
      have 3: "\<bar>int (nat block) - ?r\<bar> < \<bar>int (?m ! idx) - ?r\<bar>"
        using bd md by auto
      from idx 1 2 3 bd(6) u
      have "\<exists>idx block. idx < NumBlocks \<and> block < UnmappedBlock \<and> block \<notin> set ?m \<and>
          \<bar>int block - ?r\<bar> < \<bar>int (?m ! idx) - ?r\<bar> \<and> as_bufBlockMap s' = ?m[idx := block]"
        by (intro exI [of _ idx] exI [of _ "nat block"]) simp
      with b e p show ?thesis
        by (intro exI [of _ True] exI [of _ s']) simp
    qed
  qed
qed

lemma distinct_filter_update:
  "distinct (filter P xs) \<Longrightarrow> b \<notin> set xs \<Longrightarrow> distinct (filter P (xs[i := b]))"
proof (induction xs arbitrary: i)
  case Nil
  then show ?case by simp
next
  case (Cons x xs)
  show ?case
  proof (cases i)
    case 0
    with Cons.prems show ?thesis by (auto split: if_splits)
  next
    case (Suc j)
    have "set (xs[j := b]) \<subseteq> insert b (set xs)"
      by (rule set_update_subset_insert)
    with Cons Suc show ?thesis by (auto split: if_splits)
  qed
qed

lemma prime_keeps_ok:
  assumes "stream_ok s" "no_duplicates (as_bufBlockMap s)"
  shows "\<exists>b s'. prime ops st s = Inr (b, s') \<and> stream_ok s' \<and> no_duplicates (as_bufBlockMap s')"
proof -
  from prime_effect [OF assms(1), of ops st]
  obtain b s' where e: "prime ops st s = Inr (b, s')" "untouched s s'"
    "if b then \<exists>idx block. idx < NumBlocks \<and> block < UnmappedBlock \<and>
          block \<notin> set (as_bufBlockMap s) \<and>
          \<bar>int block - readHeadBlock_of st s\<bar>
            < \<bar>int (as_bufBlockMap s ! idx) - readHeadBlock_of st s\<bar> \<and>
          as_bufBlockMap s' = (as_bufBlockMap s)[idx := block]
      else as_bufBlockMap s' = as_bufBlockMap s"
    by blast
  have "stream_ok s' \<and> no_duplicates (as_bufBlockMap s')"
  proof (cases b)
    case False
    with e assms show ?thesis
      by (simp add: stream_ok_def untouched_def)
  next
    case True
    with e(3) obtain idx block where f: "idx < NumBlocks" "block < UnmappedBlock"
      "block \<notin> set (as_bufBlockMap s)" "as_bufBlockMap s' = (as_bufBlockMap s)[idx := block]"
      by auto
    have "list_all (\<lambda>b. b \<le> UnmappedBlock) ((as_bufBlockMap s)[idx := block])"
      using assms(1) f(2) set_update_subset_insert [of "as_bufBlockMap s" idx block]
      by (auto simp: stream_ok_def list_all_iff)
    moreover have "distinct (filter (\<lambda>b. b \<noteq> UnmappedBlock) ((as_bufBlockMap s)[idx := block]))"
      using assms f(3) by (simp add: distinct_filter_update no_duplicates_def stream_ok_def)
    ultimately show ?thesis
      using e(2) f(4) assms(1) by (simp add: stream_ok_def untouched_def no_duplicates_def)
  qed
  with e(1) show ?thesis by blast
qed

lemma uint32_t_less [simp]: "uint32_t x < 4294967296"
  by (simp add: uint32_t_def)

lemma read_cache_keeps:
  "read_cache st s n = (s', k) \<Longrightarrow>
     as_bufBlockMap s' = as_bufBlockMap s \<and> as_file s' = as_file s \<and>
     as_introBufSize s' = as_introBufSize s \<and>
     (as_sampleIdx s < 2 ^ 32 \<longrightarrow> as_sampleIdx s' < 2 ^ 32)"
proof (induction st s n arbitrary: s' k rule: read_cache.induct)
  case step: (1 st s n)
  show ?case
    using step.prems
    apply (subst (asm) read_cache.simps)
    apply (auto simp: Let_def split: if_splits option.splits
        dest!: step.IH [OF _ refl refl refl _ refl refl refl])
    done
qed

lemma read_keeps_ok:
  assumes "stream_ok s"
  shows "stream_ok (fst (read st n s)) \<and>
     as_bufBlockMap (fst (read st n s)) = as_bufBlockMap s"
proof -
  obtain s1 left1 where i: "read_intro s n = (s1, left1)"
    by (cases "read_intro s n")
  obtain s2 left2 where c: "read_cache st s1 left1 = (s2, left2)"
    by (cases "read_cache st s1 left1")
  from i assms have "stream_ok s1 \<and> as_bufBlockMap s1 = as_bufBlockMap s"
    by (auto simp: read_intro_def stream_ok_def Let_def split: if_splits)
  with read_cache_keeps [OF c] have "stream_ok s2 \<and> as_bufBlockMap s2 = as_bufBlockMap s"
    by (auto simp: stream_ok_def)
  with i c show ?thesis
    by (simp add: read_def)
qed

lemma scan_chunks_file:
  assumes "scan_chunks ops w hs = Some y"
  shows "y = Inr (True, w', hs') \<Longrightarrow> wl_file w' \<noteq> None"
  using assms
proof (induction arbitrary: w' hs' rule: scan_chunks.raw_induct [rotated 1, consumes 1])
  case step: (1 scan ops w hs y)
  show ?case
    using step.hyps step.prems
    by (auto simp: read_chunk_def after_chunk_def Let_def
        split: sum.splits chunk_step.splits option.splits prod.splits if_splits bool.splits
        dest: step.IH)
qed

lemma open_sets_file:
  "WavLoader_open ops wrapper w0 = Some (Inr (True, w, hs)) \<Longrightarrow> wl_file w \<noteq> None"
  by (auto simp: WavLoader_open_def split: option.splits prod.splits bool.splits if_splits
      dest: scan_chunks_file)

lemma load_gives_ok:
  assumes "load ops st wrapper s0 = Some (Inr (NoErr, s))"
  shows "stream_ok s \<and> as_bufBlockMap s = replicate NumBlocks UnmappedBlock \<and> as_sampleIdx s = 0"
  using assms
  by (auto simp: load_def loadIntroBuffer_def WavLoader_seek_def WavLoader_read_def stream_ok_def
      list_all_iff
      split: option.splits sum.splits prod.splits if_splits dest!: open_sets_file)

lemma no_duplicates_unmapped [simp]: "no_duplicates (replicate k UnmappedBlock)"
  by (simp add: no_duplicates_def)

lemma run_keeps_ok:
  "stream_ok s \<Longrightarrow> no_duplicates (as_bufBlockMap s) \<Longrightarrow>
   \<exists>s'. run ops st calls s = Inr s' \<and> stream_ok s' \<and> no_duplicates (as_bufBlockMap s')"
proof (induction calls arbitrary: s)
  case Nil
  then show ?case by simp
next
  case (Cons c calls)
  show ?case
  proof (cases c)
    case Prime
    from prime_keeps_ok [OF Cons.prems, of ops st]
    obtain b s1 where "prime ops st s = Inr (b, s1)" "stream_ok s1"
      "no_duplicates (as_bufBlockMap s1)"
      by blast
    with Cons.IH [of s1] Prime show ?thesis by simp
  next
    case (Read n)
    from read_keeps_ok [OF Cons.prems(1), of st n] Cons.prems(2)
    have "stream_ok (fst (read st n s))" "no_duplicates (as_bufBlockMap (fst (read st n s)))"
      by simp_all
    with Cons.IH [of "fst (read st n s)"] Read show ?thesis by simp
  qed
qed

text \<open>
  C8. Starting from a successful \<^verbatim>\<open>load\<close>, any sequence of \<^verbatim>\<open>prime\<close> and \<^verbatim>\<open>read\<close> calls runs
  without a fault and ends with a block map in which no two occupied slots hold the same
  file block, whatever the storage does.
\<close>

theorem block_map_never_duplicates:
  assumes "load ops st wrapper s0 = Some (Inr (NoErr, s))"
  shows "\<exists>s'. run ops st calls s = Inr s' \<and> no_duplicates (as_bufBlockMap s')"
proof -
  from load_gives_ok [OF assms] have "stream_ok s" "no_duplicates (as_bufBlockMap s)"
    by simp_all
  from run_keeps_ok [OF this, of ops st calls] show ?thesis
    by blast
qed

text \<open>C8 at the stream loaded from the container with 16384 bytes of data.\<close>

theorem block_map_never_duplicates_witness:
  "load PosixFileWrapper Int16 (Some (mono16_wav 16384)) fresh_stream =
     Some (Inr (NoErr, mono16_stream 16384 (mono16_file 16384 8192))) \<and>
   (\<exists>s'. run PosixFileWrapper Int16 [Prime, Read 5000, Prime, Prime]
            (mono16_stream 16384 (mono16_file 16384 8192)) = Inr s' \<and>
         no_duplicates (as_bufBlockMap s'))"
proof -
  have l: "load PosixFileWrapper Int16 (Some (mono16_wav 16384)) fresh_stream =
     Some (Inr (NoErr, mono16_stream 16384 (mono16_file 16384 8192)))"
    by (simp add: load_mono16)
  from block_map_never_duplicates [OF l] l show ?thesis
    by blast
qed

section \<open>Repeated prime\<close>

lemma sum_list_map_update:
  "i < length xs \<Longrightarrow>
   sum_list (map f (xs[i := x])) = sum_list (map f xs) - f (xs ! i) + (f x :: int)"
proof (induction xs arbitrary: i)
  case Nil
  then show ?case by simp
next
  case (Cons y ys)
  then show ?case by (cases i) simp_all
qed

lemma spread_update:
  assumes "idx < length m" "\<bar>int b - r\<bar> < \<bar>int (m ! idx) - r\<bar>"
  shows "spread (m[idx := b]) r < spread m r"
proof -
  have "0 \<le> sum_list (map (\<lambda>b. \<bar>int b - r\<bar>) (m[idx := b]))"
    by (rule sum_list_nonneg) auto
  with assms show ?thesis
    by (simp add: spread_def sum_list_map_update)
qed

lemma prime_step:
  assumes "stream_ok s"
  shows "\<exists>b s'. prime ops st s = Inr (b, s') \<and> stream_ok s' \<and> untouched s s' \<and>
     (if b then spread (as_bufBlockMap s') (readHeadBlock_of st s)
                 < spread (as_bufBlockMap s) (readHeadBlock_of st s)
      else as_bufBlockMap s' = as_bufBlockMap s)"
proof -
  from prime_effect [OF assms, of ops st]
  obtain b s' where e: "prime ops st s = Inr (b, s')" "untouched s s'"
    "if b then \<exists>idx block. idx < NumBlocks \<and> block < UnmappedBlock \<and>
          block \<notin> set (as_bufBlockMap s) \<and>
          \<bar>int block - readHeadBlock_of st s\<bar>
            < \<bar>int (as_bufBlockMap s ! idx) - readHeadBlock_of st s\<bar> \<and>
          as_bufBlockMap s' = (as_bufBlockMap s)[idx := block]
      else as_bufBlockMap s' = as_bufBlockMap s"
    by blast
  have "stream_ok s' \<and>
     (if b then spread (as_bufBlockMap s') (readHeadBlock_of st s)
                 < spread (as_bufBlockMap s) (readHeadBlock_of st s)
      else as_bufBlockMap s' = as_bufBlockMap s)"
  proof (cases b)
    case False
    with e assms show ?thesis
      by (simp add: stream_ok_def untouched_def)
  next
    case True
    with e(3) obtain idx block where f: "idx < NumBlocks" "block < UnmappedBlock"
      "\<bar>int block - readHeadBlock_of st s\<bar>
            < \<bar>int (as_bufBlockMap s ! idx) - readHeadBlock_of st s\<bar>"
      "as_bufBlockMap s' = (as_bufBlockMap s)[idx := block]"
      by auto
    have "list_all (\<lambda>b. b \<le> UnmappedBlock) ((as_bufBlockMap s)[idx := block])"
      using assms f(2) set_update_subset_insert [of "as_bufBlockMap s" idx block]
      by (auto simp: stream_ok_def list_all_iff)
    moreover have "spread ((as_bufBlockMap s)[idx := block]) (readHeadBlock_of st s)
        < spread (as_bufBlockMap s) (readHeadBlock_of st s)"
      using assms f(1) f(3) by (intro spread_update) (simp_all add: stream_ok_def)
    ultimately show ?thesis
      using True e(2) f(4) assms by (simp add: stream_ok_def untouched_def)
  qed
  with e(1) e(2) show ?thesis by blast
qed

lemma primes_add:
  "primes ops st (a + b) s =
     (case primes ops st a s of Inl e \<Rightarrow> Inl e | Inr t \<Rightarrow> primes ops st b t)"
proof (induction a arbitrary: s)
  case 0
  then show ?case by simp
next
  case (Suc a)
  then show ?case by (simp split: sum.splits prod.splits)
qed

lemma primes_ok:
  assumes "stream_ok s"
  shows "\<exists>t. primes ops st n s = Inr t \<and> stream_ok t \<and> untouched s t \<and>
     spread (as_bufBlockMap t) (readHeadBlock_of st s)
       \<le> spread (as_bufBlockMap s) (readHeadBlock_of st s)"
  using assms
proof (induction n arbitrary: s)
  case 0
  then show ?case by (simp add: untouched_def stream_ok_def)
next
  case (Suc n)
  from prime_step [OF Suc.prems, of ops st]
  obtain b s1 where p: "prime ops st s = Inr (b, s1)" "stream_ok s1" "untouched s s1"
    "if b then spread (as_bufBlockMap s1) (readHeadBlock_of st s)
                 < spread (as_bufBlockMap s) (readHeadBlock_of st s)
      else as_bufBlockMap s1 = as_bufBlockMap s"
    by blast
  from Suc.IH [OF p(2)]
  obtain t where t: "primes ops st n s1 = Inr t" "stream_ok t" "untouched s1 t"
    "spread (as_bufBlockMap t) (readHeadBlock_of st s1)
       \<le> spread (as_bufBlockMap s1) (readHeadBlock_of st s1)"
    by blast
  have r: "readHeadBlock_of st s1 = readHeadBlock_of st s"
    using p(3) by (rule untouched_readHeadBlock)
  have "spread (as_bufBlockMap s1) (readHeadBlock_of st s)
       \<le> spread (as_bufBlockMap s) (readHeadBlock_of st s)"
    using p(4) by (cases b) simp_all
  with t(4) r have "spread (as_bufBlockMap t) (readHeadBlock_of st s)
       \<le> spread (as_bufBlockMap s) (readHeadBlock_of st s)"
    by simp
  moreover have "untouched s t"
    using p(3) t(3) by (rule untouched_trans)
  ultimately show ?case
    using p(1) t(1) t(2) by simp
qed

lemma primes_settle:
  assumes "stream_ok s"
  shows "\<exists>n. \<forall>m\<ge>n. \<exists>t t'. primes ops st m s = Inr t \<and> untouched s t \<and>
     prime ops st t = Inr (False, t') \<and> as_bufBlockMap t' = as_bufBlockMap t"
  using assms
proof (induction "spread (as_bufBlockMap s) (readHeadBlock_of st s)" arbitrary: s rule: less_induct)
  case less
  let ?quiet = "\<lambda>s m. \<exists>t t'. primes ops st m s = Inr t \<and> untouched s t \<and>
     prime ops st t = Inr (False, t') \<and> as_bufBlockMap t' = as_bufBlockMap t"
  show ?case
  proof (cases "\<forall>m. ?quiet s m")
    case True
    then show ?thesis by blast
  next
    case False
    then obtain m where m: "\<not> ?quiet s m" by blast
    from primes_ok [OF less.prems, of ops st m]
    obtain t where t: "primes ops st m s = Inr t" "stream_ok t" "untouched s t"
      "spread (as_bufBlockMap t) (readHeadBlock_of st s)
         \<le> spread (as_bufBlockMap s) (readHeadBlock_of st s)"
      by blast
    from prime_step [OF t(2), of ops st]
    obtain b t' where p: "prime ops st t = Inr (b, t')" "stream_ok t'" "untouched t t'"
      "if b then spread (as_bufBlockMap t') (readHeadBlock_of st t)
                 < spread (as_bufBlockMap t) (readHeadBlock_of st t)
       else as_bufBlockMap t' = as_bufBlockMap t"
      by blast
    have b: b
    proof (rule ccontr)
      assume "\<not> b"
      with p t have "?quiet s m" by auto
      with m show False by blast
    qed
    have rt: "readHeadBlock_of st t = readHeadBlock_of st s"
      using t(3) by (rule untouched_readHeadBlock)
    have rt': "readHeadBlock_of st t' = readHeadBlock_of st s"
      using untouched_readHeadBlock [OF p(3), of st] rt by simp
    have "spread (as_bufBlockMap t') (readHeadBlock_of st t')
        < spread (as_bufBlockMap s) (readHeadBlock_of st s)"
      using b p(4) t(4) rt rt' by simp
    from less.hyps [OF this p(2)]
    obtain n' where n': "\<forall>k\<ge>n'. ?quiet t' k" by blast
    have st': "untouched s t'"
      using t(3) p(3) by (rule untouched_trans)
    have shift: "primes ops st (m + 1 + k) s = primes ops st k t'" for k
      using t(1) p(1) primes_add [of ops st "m + 1" k s] primes_add [of ops st m 1 s]
      by simp
    have "?quiet s j" if j: "m + 1 + n' \<le> j" for j
    proof -
      from j have "n' \<le> j - (m + 1)" by simp
      with n' obtain u u' where u: "primes ops st (j - (m + 1)) t' = Inr u" "untouched t' u"
        "prime ops st u = Inr (False, u')" "as_bufBlockMap u' = as_bufBlockMap u"
        by blast
      from j have "m + 1 + (j - (m + 1)) = j" by simp
      with shift [of "j - (m + 1)"] u(1) have "primes ops st j s = Inr u" by simp
      moreover have "untouched s u"
        using st' u(2) by (rule untouched_trans)
      ultimately show ?thesis
        using u(3) u(4) by blast
    qed
    then show ?thesis by blast
  qed
qed

lemma stream_ok_mono16 [simp]: "stream_ok (mono16_stream n f)"
  by (simp add: stream_ok_def mono16_stream_def mono16_loader_def list_all_iff)

text \<open>
  C9. From any stream whose cursor stays where it is, repeated calls of \<^verbatim>\<open>prime\<close> never
  fault and never move the cursor, and after finitely many of them every further call
  reports no fill performed and leaves the block map as it is, whatever the storage does:
  each fill makes the summed distance of the slots from the read head smaller.
\<close>

theorem prime_reaches_fixed_point:
  assumes "stream_ok s"
  shows "\<exists>n. \<forall>m\<ge>n. \<exists>t t'. primes ops st m s = Inr t \<and> as_sampleIdx t = as_sampleIdx s \<and>
     prime ops st t = Inr (False, t') \<and> as_bufBlockMap t' = as_bufBlockMap t"
proof -
  from primes_settle [OF assms, of ops st]
  obtain n where "\<forall>m\<ge>n. \<exists>t t'. primes ops st m s = Inr t \<and> untouched s t \<and>
     prime ops st t = Inr (False, t') \<and> as_bufBlockMap t' = as_bufBlockMap t"
    by blast
  then have "\<forall>m\<ge>n. \<exists>t t'. primes ops st m s = Inr t \<and> as_sampleIdx t = as_sampleIdx s \<and>
     prime ops st t = Inr (False, t') \<and> as_bufBlockMap t' = as_bufBlockMap t"
    by (fastforce simp: untouched_def)
  then show ?thesis ..
qed

text \<open>C9 at the stream loaded from the container with 16384 bytes of data.\<close>

theorem prime_reaches_fixed_point_witness:
  "stream_ok (mono16_stream 16384 (mono16_file 16384 8192)) \<and>
   (\<exists>n. \<forall>m\<ge>n. \<exists>t t'.
      primes PosixFileWrapper Int16 m (mono16_stream 16384 (mono16_file 16384 8192)) = Inr t \<and>
      as_sampleIdx t = 0 \<and>
      prime PosixFileWrapper Int16 t = Inr (False, t') \<and> as_bufBlockMap t' = as_bufBlockMap t)"
proof -
  have ok: "stream_ok (mono16_stream 16384 (mono16_file 16384 8192))"
    by simp
  from prime_reaches_fixed_point [OF ok, of PosixFileWrapper Int16] ok show ?thesis
    by (simp add: mono16_stream_def)
qed

section \<open>The candidate search of prime\<close>

lemma SamplesPerBlock_Int16 [simp]: "SamplesPerBlock Int16 = 2048"
  by (simp add: SamplesPerBlock_def BlockSize_def)

lemmas prime_eval =
  prime_def readHeadBlock_of_def furthest_def upt_NumBlocks Let_def
  prime_distance_def prime_candidate_def have_block_def
  WavLoader_seek_def WavLoader_read_def filePositionForSample_def numSamples_def
  frameAlignment_def uint32_t_def size_t_def BlockSize_def UnmappedBlock_def

lemma recording_seek:
  "fw_seek (Recording ops) p (f, l) = (fst (fw_seek ops p f), (snd (fw_seek ops p f), l @ [IoSeek p]))"
  by (simp add: Recording_def)

lemma recording_read:
  "fw_read (Recording ops) n (f, l) = (fst (fw_read ops n f), (snd (fw_read ops n f), l @ [IoRead n]))"
  by (simp add: Recording_def)

lemma prime_distance_out_of_range:
  assumes "0 \<le> r + d"
    and "(r + d) * int (SamplesPerBlock st)
      > int (size_t (int (numSamples (as_file s)) - int (as_introBufSize s)))"
  shows "prime_distance ops st s r idx d = Inr (Break s)"
  using assms by (simp add: prime_distance_def prime_candidate_def)

lemma prime_scan_all_break:
  assumes "\<And>d. a \<le> d \<Longrightarrow> prime_distance ops st s r idx d = Inr (Break s)"
  shows "prime_scan ops st s r idx maxDiff a = Inr (False, s)"
  using assms
proof (induction "nat (maxDiff - a)" arbitrary: a)
  case 0
  then show ?case
    by (subst prime_scan.simps) simp
next
  case (Suc k)
  then have "k = nat (maxDiff - (a + 1))" "a < maxDiff"
    by linarith+
  moreover have "prime_distance ops st s r idx a = Inr (Break s)"
    using Suc.prems by simp
  moreover have "\<And>d. a + 1 \<le> d \<Longrightarrow> prime_distance ops st s r idx d = Inr (Break s)"
    using Suc.prems by simp
  ultimately show ?case
    using Suc.hyps(1) [of "a + 1"] by (subst prime_scan.simps) simp
qed

text \<open>
  The stream \<open>near_end_stream\<close> arises from \<^verbatim>\<open>load\<close> by a seek into file block 2, two calls
  of \<^verbatim>\<open>prime\<close>, a seek into file block 5 and a third call of \<^verbatim>\<open>prime\<close>, each of which fills.
\<close>

lemma near_end_stream_reached:
  "\<exists>s1 s2.
     load PosixFileWrapper Int16 (Some (mono16_wav 28648)) fresh_stream
       = Some (Inr (NoErr, mono16_stream 28648 (mono16_file 28648 8192))) \<and>
     prime PosixFileWrapper Int16
       (setSampleIndex 8170 (mono16_stream 28648 (mono16_file 28648 8192))) = Inr (True, s1) \<and>
     prime PosixFileWrapper Int16 s1 = Inr (True, s2) \<and>
     prime PosixFileWrapper Int16 (setSampleIndex 14314 s2) = Inr (True, near_end_stream)"
proof -
  let ?s = "\<lambda>i p q m. \<lparr> as_readHead = IntroBuf 0, as_sampleIdx = i,
       as_file = (mono16_loader 28648 (mono16_file 28648 q))\<lparr>wl_position := p\<rparr>,
       as_introBufSize = 4074, as_bufBlockMap = m \<rparr>"
  have 0: "setSampleIndex 8170 (mono16_stream 28648 (mono16_file 28648 8192))
      = ?s 8170 44 8192 [2147483647, 2147483647, 2147483647]"
    by (simp add: setSampleIndex_def mono16_stream_def mono16_loader_def numSamples_def
        NumBlocks_def UnmappedBlock_def numeral_3_eq_3)
  have 1: "prime PosixFileWrapper Int16 (?s 8170 44 8192 [2147483647, 2147483647, 2147483647])
      = Inr (True, ?s 8170 16384 20480 [2, 2147483647, 2147483647])"
    by (subst prime_def)
      (simp add: prime_eval mono16_loader_def mono16_file_def prime_scan.simps
        posix_seek posix_read length_mono16_bytes)
  have 2: "prime PosixFileWrapper Int16 (?s 8170 16384 20480 [2, 2147483647, 2147483647])
      = Inr (True, ?s 8170 20480 24576 [2, 3, 2147483647])"
    by (subst prime_def)
      (simp add: prime_eval mono16_loader_def mono16_file_def prime_scan.simps
        posix_seek posix_read length_mono16_bytes)
  have 3: "setSampleIndex 14314 (?s 8170 20480 24576 [2, 3, 2147483647])
      = ?s 14314 20480 24576 [2, 3, 2147483647]"
    by (simp add: setSampleIndex_def mono16_loader_def numSamples_def)
  have 4: "prime PosixFileWrapper Int16 (?s 14314 20480 24576 [2, 3, 2147483647])
      = Inr (True, near_end_stream)"
    by (subst prime_def)
      (simp add: prime_eval mono16_loader_def mono16_file_def prime_scan.simps
        posix_seek posix_read length_mono16_bytes near_end_stream_def)
  show ?thesis
    using 0 1 2 3 4 by (simp add: load_mono16)
qed

text \<open>
  C5. In \<open>near_end_stream\<close> the read head is in file block 5, the furthest slot is slot 0 at
  distance 3, and file block 4, one behind the read head, is in range and in no slot: it
  is the first unmapped, in-range candidate when the candidates are taken by increasing
  distance, the block ahead before the block behind. \<^verbatim>\<open>prime\<close> fills
  nothing and returns false: at distances 1 and 2 the block ahead is beyond the last block
  of the stream, and the \<^verbatim>\<open>break\<close> taken there leaves the inner loop before the block
  behind is looked at.
\<close>

theorem prime_leaves_nearer_block_behind:
  "prime PosixFileWrapper Int16 near_end_stream = Inr (False, near_end_stream) \<and>
   readHeadBlock_of Int16 near_end_stream = 5 \<and>
   furthest (as_bufBlockMap near_end_stream) 5 = (0, 3) \<and>
   \<not> have_block (as_bufBlockMap near_end_stream) 4 \<and>
   4 * int (SamplesPerBlock Int16)
     \<le> int (size_t (int (numSamples (as_file near_end_stream))
                      - int (as_introBufSize near_end_stream)))"
  by (simp add: prime_eval near_end_stream_def mono16_loader_def prime_scan.simps)

text \<open>
  C1. On the stream that \<^verbatim>\<open>load\<close> leaves for the container with 4 samples, all of them in the
  lead-in, one call of \<^verbatim>\<open>prime\<close> over a storage object that records its calls performs two
  storage reads: file block 0 is in range, its read at the end of the file returns zero
  bytes, and the search goes on to the candidate behind at distance 0, which is file
  block 0 again.
\<close>

theorem prime_reads_empty_block_twice:
  "\<exists>s'. prime (Recording PosixFileWrapper) Int16 (mono16_stream 8 (mono16_file 8 52, []))
          = Inr (False, s') \<and>
        map_option snd (wl_file (as_file s'))
          = Some [IoSeek 52, IoRead 4096, IoSeek 52, IoRead 4096] \<and>
        reads [IoSeek 52, IoRead 4096, IoSeek 52, IoRead 4096] = 2"
proof -
  let ?s = "\<lambda>p l. \<lparr> as_readHead = IntroBuf 0, as_sampleIdx = 0,
       as_file = (mono16_loader 8 (mono16_file 8 52, l))\<lparr>wl_position := p\<rparr>,
       as_introBufSize = 4, as_bufBlockMap = [2147483647, 2147483647, 2147483647] \<rparr>"
  let ?log = "[IoSeek 52, IoRead 4096, IoSeek 52, IoRead 4096]"
  have 0: "mono16_stream 8 (mono16_file 8 52, []) = ?s 44 []"
    by (simp add: mono16_stream_def mono16_loader_def NumBlocks_def UnmappedBlock_def
        numeral_3_eq_3)
  have 1: "prime_distance (Recording PosixFileWrapper) Int16 (?s 44 []) 0 0 0
      = Inr (Skip (?s 52 ?log))"
    by (simp add: prime_eval mono16_loader_def mono16_file_def recording_seek recording_read
        posix_seek posix_read length_mono16_bytes)
  have 2: "prime_distance (Recording PosixFileWrapper) Int16 (?s 52 ?log) 0 0 d
      = Inr (Break (?s 52 ?log))" if "1 \<le> d" for d
    using that
    by (intro prime_distance_out_of_range)
      (simp_all add: mono16_loader_def numSamples_def size_t_def)
  have 3: "prime_scan (Recording PosixFileWrapper) Int16 (?s 52 ?log) 0 0 2147483647 1
      = Inr (False, ?s 52 ?log)"
    using 2 by (rule prime_scan_all_break)
  have "prime (Recording PosixFileWrapper) Int16 (?s 44 []) = Inr (False, ?s 52 ?log)"
    using 1 3
    by (subst prime_def, subst prime_scan.simps)
      (simp add: readHeadBlock_of_def furthest_def upt_NumBlocks)
  then show ?thesis
    unfolding 0 by (simp add: mono16_loader_def reads_def)
qed

section \<open>read at the end of the stream\<close>

lemmas read_eval =
  read_def read_intro_def find_block_def to_int_def size_t_def uint32_t_def upt_NumBlocks Let_def

lemma read_cache_left:
  "read_cache st s n = (s', k) \<Longrightarrow> k \<le> n"
proof (induction st s n arbitrary: s' k rule: read_cache.induct)
  case step: (1 st s n)
  show ?case
    using step.prems
    apply (subst (asm) read_cache.simps)
    apply (auto simp: Let_def split: if_splits option.splits
        dest!: step.IH [OF _ refl refl refl _ refl refl refl])
    done
qed

lemma read_from_lead_in_past_the_data:
  assumes "numSamples (as_file s) < as_introBufSize s" and "0 < n"
  shows "0 < snd (read st n (setSampleIndex (numSamples (as_file s)) s))"
proof -
  let ?s = "setSampleIndex (numSamples (as_file s)) s"
  obtain s1 left1 where i: "read_intro ?s n = (s1, left1)"
    by (cases "read_intro ?s n")
  obtain s2 left2 where c: "read_cache st s1 left1 = (s2, left2)"
    by (cases "read_cache st s1 left1")
  from i assms have "left1 < n"
    by (auto simp: read_intro_def setSampleIndex_def Let_def split: if_splits)
  with read_cache_left [OF c] have "left2 < n" by simp
  with i c show ?thesis
    by (simp add: read_def)
qed

lemma stereo16_bytes_at:
  "length stereo16_bytes = 52"
  "take 8 stereo16_bytes = RIFF_TAG @ le32_bytes 44"
  "take 4 (drop 8 stereo16_bytes) = WAVE_TAG"
  "take 8 (drop 12 stereo16_bytes) = FMT_TAG @ le32_bytes 16"
  "take 16 (drop 20 stereo16_bytes) = stereo16_format"
  "take 8 (drop 36 stereo16_bytes) = DATA_TAG @ le32_bytes 8"
  by (simp_all add: stereo16_bytes_def RIFF_TAG_def WAVE_TAG_def FMT_TAG_def DATA_TAG_def
      le32_bytes_def stereo16_format_def)

lemma stereo16_format_fields [simp]:
  "length stereo16_format = 16" "block_align stereo16_format = 4"
  "bits_per_sample stereo16_format = 16" "num_channels stereo16_format = 2"
  by (simp_all add: stereo16_format_def block_align_def bits_per_sample_def num_channels_def)

text \<open>
  A stereo stream counts its cursor in frames and its lead-in in samples: the 2-frame
  container loads with a lead-in of 4 samples, and a \<^verbatim>\<open>read\<close> at the cursor \<open>sampleCount\<close>
  delivers 2 samples from the lead-in.
\<close>

lemma read_at_end_of_stereo_stream:
  "\<exists>s. load PosixFileWrapper Int16 (Some stereo16_wav) fresh_stream = Some (Inr (NoErr, s)) \<and>
       numSamples (as_file s) = 2 \<and> as_introBufSize s = 4 \<and>
       sampleIndex (setSampleIndex 2 s) = 2 \<and>
       snd (read Int16 10 (setSampleIndex 2 s)) = 2"
proof -
  let ?f = "\<lambda>q. \<lparr>pf_bytes = stereo16_bytes, pf_stream = Some q\<rparr>"
  let ?w = "\<lambda>fm p n d q. \<lparr> wl_format = fm, wl_file = Some (?f q), wl_position = p,
       wl_length = n, wl_data_offset = d, wl_file_size = 52 \<rparr>"
  have o: "WavLoader_open PosixFileWrapper (Some stereo16_wav) (WavLoader_new 0)
      = scan_chunks PosixFileWrapper (?w (replicate 16 0) 0 0 0 12) []"
    by (simp add: WavLoader_open_def stereo16_wav_def posix_open posix_seek posix_read
        stereo16_bytes_at length_le32_bytes le_le32_bytes uint32_t_def WavLoader_new_def)
  have 1: "read_chunk PosixFileWrapper (?w (replicate 16 0) 0 0 0 12)
      = Inr (Next (?w stereo16_format 0 0 0 36) (FMT_TAG, 16))"
    by (simp add: read_chunk_def posix_read posix_position posix_seek stereo16_bytes_at
        length_le32_bytes le_le32_bytes chunk_tag_def chunk_size_def after_chunk_def size_t_def)
  have 2: "read_chunk PosixFileWrapper (?w stereo16_format 0 0 0 36)
      = Inr (Return True (?w stereo16_format 0 2 44 44) [(DATA_TAG, 8)])"
    by (simp add: read_chunk_def posix_read posix_position posix_seek stereo16_bytes_at
        length_le32_bytes le_le32_bytes chunk_tag_def chunk_size_def after_chunk_def
        uint32_t_def)
  have "WavLoader_open PosixFileWrapper (Some stereo16_wav) (WavLoader_new 0)
      = Some (Inr (True, ?w stereo16_format 0 2 44 44, [(FMT_TAG, 16), (DATA_TAG, 8)]))"
    unfolding o
    by (subst scan_chunks.simps, simp add: 1, subst scan_chunks.simps, simp add: 2)
  then have l: "load PosixFileWrapper Int16 (Some stereo16_wav) fresh_stream
      = Some (Inr (NoErr,
          \<lparr> as_readHead = IntroBuf 0, as_sampleIdx = 0, as_file = ?w stereo16_format 44 2 44 52,
            as_introBufSize = 4, as_bufBlockMap = replicate NumBlocks UnmappedBlock \<rparr>))"
    by (simp add: load_def fresh_stream_def AudioSamplerStream_new_def bitsPerSample_def
        loadIntroBuffer_def WavLoader_seek_def WavLoader_read_def filePositionForSample_def
        numSamples_def frameAlignment_def uint32_t_def posix_seek posix_read stereo16_bytes_at)
  show ?thesis
    unfolding l
    by (simp add: numSamples_def sampleIndex_def setSampleIndex_def read_eval read_cache.simps
        UnmappedBlock_def NumBlocks_def numeral_3_eq_3)
qed

text \<open>A turn of the loop of \<^verbatim>\<open>read\<close> that finds its block in a slot delivers samples.\<close>

lemma read_cache_hit:
  assumes "read_cache st s n = (s', k)" and "0 < n"
    and "find_block (as_bufBlockMap s)
           (to_int (size_t (int (as_sampleIdx s) - int (as_introBufSize s))
              div SamplesPerBlock st)) = Some j"
  shows "k < n"
proof -
  let ?rel = "size_t (int (as_sampleIdx s) - int (as_introBufSize s))"
  let ?off = "?rel mod SamplesPerBlock st"
  let ?room = "(j + 1) * SamplesPerBlock st - (j * SamplesPerBlock st + ?off)"
  have "0 < SamplesPerBlock st"
    using SamplesPerBlock_ge [of st] by simp
  then have "?off < SamplesPerBlock st"
    by simp
  then have room: "0 < ?room"
    by simp
  show ?thesis
  proof (cases "?room \<le> n")
    case True
    with assms have "read_cache st
        (s\<lparr>as_readHead := RingBuf (j * SamplesPerBlock st + ?off + ?room),
           as_sampleIdx := uint32_t (int (as_sampleIdx s) + int ?room)\<rparr>) (n - ?room) = (s', k)"
      by (subst (asm) read_cache.simps) (simp add: Let_def)
    from read_cache_left [OF this] room assms(2) show ?thesis
      by linarith
  next
    case False
    with assms have "read_cache st
        (s\<lparr>as_readHead := RingBuf (j * SamplesPerBlock st + ?off + n),
           as_sampleIdx := uint32_t (int (as_sampleIdx s) + int n)\<rparr>) (n - n) = (s', k)"
      by (subst (asm) read_cache.simps) (simp add: Let_def)
    from read_cache_left [OF this] assms(2) show ?thesis
      by simp
  qed
qed

text \<open>
  Whenever a slot holds the file block in which \<open>sampleCount\<close> falls, a \<^verbatim>\<open>read\<close> with a positive
  request at the cursor \<open>sampleCount\<close> delivers samples.
\<close>

lemma read_at_end_delivers_when_cached:
  assumes "0 < n" and "as_introBufSize s \<le> numSamples (as_file s)"
    and "numSamples (as_file s) < 2 ^ 32" and "numSamples (as_file s) \<le> i"
    and "find_block (as_bufBlockMap s)
           (to_int ((numSamples (as_file s) - as_introBufSize s) div SamplesPerBlock st)) = Some j"
  shows "0 < snd (read st n (setSampleIndex i s))"
proof -
  let ?s = "setSampleIndex i s"
  have c: "as_sampleIdx ?s = numSamples (as_file s)" "as_introBufSize ?s = as_introBufSize s"
    "as_bufBlockMap ?s = as_bufBlockMap s"
    using assms(4) by (simp_all add: setSampleIndex_def)
  have i: "read_intro ?s n = (?s, n)"
    using assms(2) c by (simp add: read_intro_def)
  have rel: "size_t (int (numSamples (as_file s)) - int (as_introBufSize s))
      = numSamples (as_file s) - as_introBufSize s"
    using assms(2) assms(3) by (simp add: size_t_def nat_diff_distrib' flip: of_nat_diff)
  obtain s2 k where r: "read_cache st ?s n = (s2, k)"
    by (cases "read_cache st ?s n")
  have "k < n"
    using r assms(1)
  proof (rule read_cache_hit)
    show "find_block (as_bufBlockMap ?s)
        (to_int (size_t (int (as_sampleIdx ?s) - int (as_introBufSize ?s))
           div SamplesPerBlock st)) = Some j"
      using assms(5) c rel by simp
  qed
  with i r show ?thesis
    by (simp add: read_def)
qed

text \<open>
  C3. On the 4096-sample container the lead-in holds 4074 samples and file block 0 holds the
  last 22. One call of \<^verbatim>\<open>prime\<close> after \<^verbatim>\<open>load\<close> caches file block 0, a storage read that
  transfers 44 bytes. With the cursor then set to 4096, or to 5000 and so clipped to 4096,
  a \<^verbatim>\<open>read\<close> of 10 samples finds file block 0 in slot 0 and delivers 10 samples from the
  part of the slot that storage never filled, and the cursor ends at 4106, beyond
  \<open>sampleCount\<close>; \<^verbatim>\<open>read\<close> has no test against the end of the stream.
\<close>

theorem read_at_end_delivers_cached_samples:
  "\<exists>s1. load PosixFileWrapper Int16 (Some (mono16_wav 8192)) fresh_stream
          = Some (Inr (NoErr, mono16_stream 8192 (mono16_file 8192 8192))) \<and>
        length (fst (fw_read PosixFileWrapper 4096 (mono16_file 8192 8192))) = 44 \<and>
        prime PosixFileWrapper Int16 (mono16_stream 8192 (mono16_file 8192 8192))
          = Inr (True, s1) \<and>
        as_bufBlockMap s1 = [0, UnmappedBlock, UnmappedBlock] \<and>
        numSamples (as_file s1) = 4096 \<and>
        sampleIndex (setSampleIndex 4096 s1) = 4096 \<and>
        snd (read Int16 10 (setSampleIndex 4096 s1)) = 10 \<and>
        sampleIndex (fst (read Int16 10 (setSampleIndex 4096 s1))) = 4106 \<and>
        sampleIndex (setSampleIndex 5000 s1) = 4096 \<and>
        snd (read Int16 10 (setSampleIndex 5000 s1)) = 10"
proof -
  let ?s = "\<lambda>r i p q m. \<lparr> as_readHead = r, as_sampleIdx = i,
       as_file = (mono16_loader 8192 (mono16_file 8192 q))\<lparr>wl_position := p\<rparr>,
       as_introBufSize = 4074, as_bufBlockMap = m \<rparr>"
  have 0: "mono16_stream 8192 (mono16_file 8192 8192)
      = ?s (IntroBuf 0) 0 44 8192 [2147483647, 2147483647, 2147483647]"
    by (simp add: mono16_stream_def mono16_loader_def NumBlocks_def UnmappedBlock_def
        numeral_3_eq_3)
  have 1: "prime PosixFileWrapper Int16 (?s (IntroBuf 0) 0 44 8192 [2147483647, 2147483647, 2147483647])
      = Inr (True, ?s (IntroBuf 0) 0 8192 8236 [0, 2147483647, 2147483647])"
    by (subst prime_def)
      (simp add: prime_eval mono16_loader_def mono16_file_def prime_scan.simps
        posix_seek posix_read length_mono16_bytes)
  have 2: "setSampleIndex i (?s (IntroBuf 0) 0 8192 8236 [0, 2147483647, 2147483647])
      = ?s (IntroBuf 0) 4096 8192 8236 [0, 2147483647, 2147483647]" if "4096 \<le> i" for i
    using that by (simp add: setSampleIndex_def mono16_loader_def numSamples_def)
  have 3: "read Int16 10 (?s (IntroBuf 0) 4096 8192 8236 [0, 2147483647, 2147483647])
      = (?s (RingBuf 32) 4106 8192 8236 [0, 2147483647, 2147483647], 10)"
    by (simp add: read_eval read_cache.simps)
  let ?t = "?s (IntroBuf 0) 0 8192 8236 [0, 2147483647, 2147483647]"
  have l: "load PosixFileWrapper Int16 (Some (mono16_wav 8192)) fresh_stream
      = Some (Inr (NoErr, mono16_stream 8192 (mono16_file 8192 8192)))"
    by (simp add: load_mono16)
  have f: "length (fst (fw_read PosixFileWrapper 4096 (mono16_file 8192 8192))) = 44"
    by (simp add: posix_read mono16_file_def length_mono16_bytes)
  have p: "prime PosixFileWrapper Int16 (mono16_stream 8192 (mono16_file 8192 8192))
      = Inr (True, ?t)"
    using 1 by (simp only: 0)
  have m: "as_bufBlockMap ?t = [0, UnmappedBlock, UnmappedBlock]"
    by (simp add: UnmappedBlock_def)
  have n: "numSamples (as_file ?t) = 4096"
    by (simp add: numSamples_def mono16_loader_def)
  have a: "sampleIndex (setSampleIndex 4096 ?t) = 4096" "sampleIndex (setSampleIndex 5000 ?t) = 4096"
    by (simp_all add: 2 sampleIndex_def)
  have b: "snd (read Int16 10 (setSampleIndex 4096 ?t)) = 10"
    "snd (read Int16 10 (setSampleIndex 5000 ?t)) = 10"
    by (simp_all add: 2 3)
  have c: "sampleIndex (fst (read Int16 10 (setSampleIndex 4096 ?t))) = 4106"
    by (simp add: 2 3 sampleIndex_def)
  from l f p m n a b c show ?thesis
    by (intro exI [of _ ?t] conjI)
qed

section \<open>load and an empty lead-in\<close>

text \<open>
  When the read of the lead-in transfers nothing, \<^verbatim>\<open>loadIntroBuffer\<close> returns \<open>BadFile\<close> and
  \<^verbatim>\<open>load\<close>, which drops that value, reports \<open>NoErr\<close> with the lead-in size it had before.
\<close>

lemma load_drops_BadFile:
  assumes "WavLoader_open ops wrapper (as_file s) = Some (Inr (True, w, hs))"
    and "bitsPerSample w = sizeof st * 8"
    and "WavLoader_seek ops 0 w = Inr (ok, w1)"
    and "WavLoader_read ops (uint32_t (int (introBufBytes st (filePositionForSample w1 0)))) w1
           = Inr (0, w2)"
  shows "loadIntroBuffer ops st (s\<lparr>as_file := w\<rparr>) = Inr (BadFile, s\<lparr>as_file := w2\<rparr>) \<and>
     load ops st wrapper s =
       Some (Inr (NoErr,
         \<lparr> as_readHead = IntroBuf 0, as_sampleIdx = 0, as_file = w2,
           as_introBufSize = as_introBufSize s,
           as_bufBlockMap = replicate NumBlocks UnmappedBlock \<rparr>))"
  using assms by (simp add: load_def loadIntroBuffer_def)

end
